theory Spec2Isabelle
  imports Complex_Main "HOL-Library.Sublist" "HOL-Library.Multiset"
begin

section \<open>Numeric conventions\<close>

text \<open>
  The C++ sources compute with \<open>float\<close> and \<open>double\<close>.  Throughout this development
  such values are embedded as exact reals: every arithmetic operation is the exact one,
  comparisons are the order on the reals, and \<open>M_PI\<close> is \<open>pi\<close>.  Rounding error, NaN and
  the infinities are therefore outside the model; where the source relies on an IEEE
  special value (a division by zero), the branch is written out.  Indices of type
  \<open>size_t\<close> are natural numbers, \<open>int\<close> is \<open>int\<close>.
\<close>

text \<open>The conversion \<open>int(v)\<close> of a floating value: truncation toward zero.\<close>

definition c_int :: "real \<Rightarrow> int" where
  "c_int v = (if 0 \<le> v then \<lfloor>v\<rfloor> else - \<lfloor>- v\<rfloor>)"

section \<open>MultiScanMapper: the linear ring mapping\<close>

record MultiScanMapper =
  lowerBound :: real
  upperBound :: real
  nScanRings :: nat
  factor :: real

text \<open>
  Constructor and \<open>set\<close>: \<open>_factor = (nScanRings - 1) / (upperBound - lowerBound)\<close>, where
  the \<open>uint16_t\<close> ring count is promoted to \<open>int\<close> before the subtraction.
\<close>

definition MultiScanMapper_new :: "real \<Rightarrow> real \<Rightarrow> nat \<Rightarrow> MultiScanMapper" where
  "MultiScanMapper_new lb ub n =
     \<lparr>lowerBound = lb, upperBound = ub, nScanRings = n,
      factor = real_of_int (int n - 1) / (ub - lb)\<rparr>"

definition getNumberOfScanRings :: "MultiScanMapper \<Rightarrow> nat" where
  "getNumberOfScanRings m = nScanRings m"

text \<open>\<open>return int(((angle * 180 / M_PI) - _lowerBound) * _factor + 0.5);\<close>\<close>

definition getRingForAngle :: "MultiScanMapper \<Rightarrow> real \<Rightarrow> int" where
  "getRingForAngle m angle = c_int (((angle * 180 / pi) - lowerBound m) * factor m + 0.5)"

text \<open>
  The test of \<open>MultiScanRegistration::process\<close> that skips a point:
  \<open>if (scanID >= _scanMapper.getNumberOfScanRings() || scanID < 0) continue;\<close>
\<close>

definition ringDiscarded :: "MultiScanMapper \<Rightarrow> int \<Rightarrow> bool" where
  "ringDiscarded m scanID = (scanID \<ge> int (getNumberOfScanRings m) \<or> scanID < 0)"

text \<open>The linear profile with bounds \<open>[-15, 15]\<close> degrees and 16 rings.\<close>

definition linear16 :: MultiScanMapper where
  "linear16 = MultiScanMapper_new (- 15) 15 16"

section \<open>Vectors, IMU states and the IMU history\<close>

text \<open>\<open>Vector3\<close>: three coordinates with componentwise sum, difference and scaling.\<close>

type_synonym Vector3 = "real \<times> real \<times> real"

definition v3x :: "Vector3 \<Rightarrow> real" where "v3x v = fst v"
definition v3y :: "Vector3 \<Rightarrow> real" where "v3y v = fst (snd v)"
definition v3z :: "Vector3 \<Rightarrow> real" where "v3z v = snd (snd v)"

definition v3zero :: Vector3 where "v3zero = (0, 0, 0)"

definition v3add :: "Vector3 \<Rightarrow> Vector3 \<Rightarrow> Vector3" where
  "v3add a b = (v3x a + v3x b, v3y a + v3y b, v3z a + v3z b)"

definition v3sub :: "Vector3 \<Rightarrow> Vector3 \<Rightarrow> Vector3" where
  "v3sub a b = (v3x a - v3x b, v3y a - v3y b, v3z a - v3z b)"

definition v3scale :: "Vector3 \<Rightarrow> real \<Rightarrow> Vector3" where
  "v3scale a k = (v3x a * k, v3y a * k, v3z a * k)"

record IMUState =
  stamp :: real
  roll :: real
  pitch :: real
  yaw :: real
  position :: Vector3
  velocity :: Vector3
  acceleration :: Vector3

text \<open>
  Modelled from the spec: the default constructor of \<open>IMUState\<close> (loam_utils/IMUState.h is
  not among the sources).  Position and velocity of the first sample of a sequence are
  zero; the other fields start at zero too.
\<close>

definition IMUState_default :: IMUState where
  "IMUState_default =
     \<lparr>stamp = 0, roll = 0, pitch = 0, yaw = 0,
      position = v3zero, velocity = v3zero, acceleration = v3zero\<rparr>"

text \<open>
  Modelled from the spec: \<open>IMUState::interpolate(start, end, ratio, result)\<close>
  (loam_utils/IMUState.h is not among the sources) interpolates all fields linearly by the
  ratio: \<open>start * (1 - ratio) + end * ratio\<close>.
\<close>

definition IMUState_interpolate :: "IMUState \<Rightarrow> IMUState \<Rightarrow> real \<Rightarrow> IMUState" where
  "IMUState_interpolate start end' ratio =
     (let invRatio = 1 - ratio in
      \<lparr>stamp = stamp start * invRatio + stamp end' * ratio,
       roll = roll start * invRatio + roll end' * ratio,
       pitch = pitch start * invRatio + pitch end' * ratio,
       yaw = yaw start * invRatio + yaw end' * ratio,
       position = v3add (v3scale (position start) invRatio) (v3scale (position end') ratio),
       velocity = v3add (v3scale (velocity start) invRatio) (v3scale (velocity end') ratio),
       acceleration =
         v3add (v3scale (acceleration start) invRatio) (v3scale (acceleration end') ratio)\<rparr>)"

text \<open>
  Modelled from the spec: \<open>CircularBuffer\<close> (loam_utils/CircularBuffer.h is not among the
  sources) is a fixed-capacity FIFO; pushing beyond the capacity evicts the oldest sample.
  The items are kept oldest first, so that index \<open>0\<close> is the oldest sample.
\<close>

record 'a CircularBuffer =
  capacity :: nat
  items :: "'a list"

definition cb_size :: "'a CircularBuffer \<Rightarrow> nat" where
  "cb_size b = length (items b)"

definition cb_last :: "'a CircularBuffer \<Rightarrow> 'a" where
  "cb_last b = last (items b)"

definition cb_push :: "'a CircularBuffer \<Rightarrow> 'a \<Rightarrow> 'a CircularBuffer" where
  "cb_push b e =
     (if length (items b) < capacity b then b\<lparr>items := items b @ [e]\<rparr>
      else b\<lparr>items := tl (items b) @ [e]\<rparr>)"

subsection \<open>handleIMUMessage\<close>

text \<open>
  The message as the handler reads it: the time stamp, the roll, pitch and yaw that the
  external \<open>tf\<close> library extracts from the orientation quaternion, and the raw linear
  acceleration.
\<close>

record ImuMsg =
  msg_stamp :: real
  msg_roll :: real
  msg_pitch :: real
  msg_yaw :: real
  linear_acceleration :: Vector3

text \<open>
  The gravity-compensated acceleration of the handler, with the axes permuted as in the
  source.
\<close>

definition imuAcc :: "ImuMsg \<Rightarrow> Vector3" where
  "imuAcc m =
     (v3y (linear_acceleration m) - sin (msg_roll m) * cos (msg_pitch m) * 9.81,
      v3z (linear_acceleration m) - cos (msg_roll m) * cos (msg_pitch m) * 9.81,
      v3x (linear_acceleration m) + sin (msg_pitch m) * 9.81)"

text \<open>
  \<open>rotateZXY\<close> and \<open>rotateYXZ\<close> are declared in loam_utils/math_utils.h, which is not among
  the sources; they are parameters of the model.  Both act on the three coordinates of a
  vector or point and take three angles.
\<close>

type_synonym rotation = "Vector3 \<Rightarrow> real \<Rightarrow> real \<Rightarrow> real \<Rightarrow> Vector3"

definition handleIMUMessage ::
  "rotation \<Rightarrow> IMUState CircularBuffer \<Rightarrow> ImuMsg \<Rightarrow> IMUState CircularBuffer" where
  "handleIMUMessage rotateZXY imuHistory imuIn =
     (let acc = imuAcc imuIn;
          newState = IMUState_default
            \<lparr>stamp := msg_stamp imuIn, roll := msg_roll imuIn, pitch := msg_pitch imuIn,
             yaw := msg_yaw imuIn, acceleration := acc\<rparr>;
          newState' =
            (if cb_size imuHistory > 0 then
               let acc' = rotateZXY acc (roll newState) (pitch newState) (yaw newState);
                   prevState = cb_last imuHistory;
                   timeDiff = stamp newState - stamp prevState
               in newState
                    \<lparr>position :=
                       v3add (v3add (position prevState) (v3scale (velocity prevState) timeDiff))
                         (v3scale (v3scale (v3scale acc' 0.5) timeDiff) timeDiff),
                     velocity := v3add (velocity prevState) (v3scale acc' timeDiff)\<rparr>
             else newState)
      in cb_push imuHistory newState')"

subsection \<open>interpolateIMUStateFor\<close>

datatype error = OutOfBounds

text \<open>
  The \<open>while\<close> loop that moves the cursor \<open>_imuIdx\<close> forward:
  \<open>while (_imuIdx < _imuHistory.size() - 1 && timeDiff > 0) { _imuIdx++; ... }\<close>.
  It is entered with a non-empty history only.
\<close>

function imuAdvance :: "real \<Rightarrow> IMUState list \<Rightarrow> real \<Rightarrow> nat \<Rightarrow> nat" where
  "imuAdvance scanTime hist relTime idx =
     (if idx < length hist - 1 \<and> (scanTime - stamp (hist ! idx)) + relTime > 0
      then imuAdvance scanTime hist relTime (idx + 1) else idx)"
  by pat_completeness auto
termination
  by (relation "measure (\<lambda>(scanTime, hist, relTime, idx). length hist - idx)") auto

declare imuAdvance.simps [simp del]

text \<open>
  The function reads \<open>_imuHistory[_imuIdx]\<close> first; a cursor outside the history is an
  out-of-bounds read.  It returns the new cursor and the output state.
\<close>

definition interpolateIMUStateFor ::
  "real \<Rightarrow> IMUState list \<Rightarrow> nat \<Rightarrow> real \<Rightarrow> error + (nat \<times> IMUState)" where
  "interpolateIMUStateFor scanTime hist imuIdx relTime =
     (if imuIdx \<ge> length hist then Inl OutOfBounds
      else
        let idx = imuAdvance scanTime hist relTime imuIdx;
            timeDiff = (scanTime - stamp (hist ! idx)) + relTime
        in if idx = 0 \<or> timeDiff > 0 then Inr (idx, hist ! idx)
           else
             let ratio = - timeDiff / (stamp (hist ! idx) - stamp (hist ! (idx - 1)))
             in Inr (idx, IMUState_interpolate (hist ! idx) (hist ! (idx - 1)) ratio))"

section \<open>Scan registration state\<close>

text \<open>Input points (\<open>pcl::PointXYZ\<close>) and working points (\<open>pcl::PointXYZI\<close>).\<close>

record PointXYZ =
  in_x :: real
  in_y :: real
  in_z :: real

record PointXYZI =
  pt_x :: real
  pt_y :: real
  pt_z :: real
  intensity :: real

text \<open>
  \<open>ScanRegistrationParams\<close> is declared in loam/Parameters.h, which is not among the
  sources; the record has the fields that the sources read.  The counts are \<open>int\<close> in the
  comparisons of the sources.
\<close>

record ScanRegistrationParams =
  scanPeriod :: real
  imuHistorySize :: nat
  nFeatureRegions :: nat
  curvatureRegion :: nat
  maxCornerSharp :: int
  maxCornerLessSharp :: int
  maxSurfaceFlat :: int
  lessFlatFilterSize :: real
  surfaceCurvatureThreshold :: real

datatype PointLabel = CORNER_SHARP | CORNER_LESS_SHARP | SURFACE_LESS_FLAT | SURFACE_FLAT

text \<open>The numeric value of a label, as the enumeration declares it.\<close>

fun labelValue :: "PointLabel \<Rightarrow> int" where
  "labelValue CORNER_SHARP = 2"
| "labelValue CORNER_LESS_SHARP = 1"
| "labelValue SURFACE_LESS_FLAT = 0"
| "labelValue SURFACE_FLAT = - 1"

type_synonym IndexRange = "nat \<times> nat"

record ScanRegistration =
  params :: ScanRegistrationParams
  sweepStart :: real
  scanTime :: real
  imuStart :: IMUState
  imuCur :: IMUState
  imuPositionShift :: Vector3
  imuIdx :: nat
  imuHistory :: "IMUState CircularBuffer"
  laserCloud :: "PointXYZI list"
  scanIndices :: "IndexRange list"
  cornerPointsSharp :: "PointXYZI list"
  cornerPointsLessSharp :: "PointXYZI list"
  surfacePointsFlat :: "PointXYZI list"
  surfacePointsLessFlat :: "PointXYZI list"
  regionCurvature :: "real list"
  regionLabel :: "PointLabel list"
  regionSortIndices :: "nat list"
  scanNeighborPicked :: "int list"

definition hasIMUData :: "ScanRegistration \<Rightarrow> bool" where
  "hasIMUData st = (cb_size (imuHistory st) > 0)"

text \<open>
  \<open>reset(scanTime, newSweep)\<close>: the cursor goes back to \<open>0\<close>, the start state is
  interpolated for relative time \<open>0\<close>, and a new sweep clears the clouds and the scan
  indices.
\<close>

definition reset :: "ScanRegistration \<Rightarrow> real \<Rightarrow> bool \<Rightarrow> error + ScanRegistration" where
  "reset st t newSweep =
     (let st1 = st\<lparr>scanTime := t, imuIdx := 0\<rparr>;
          r = (if hasIMUData st1
               then (case interpolateIMUStateFor (scanTime st1) (items (imuHistory st1))
                            (imuIdx st1) 0 of
                       Inl e \<Rightarrow> Inl e
                     | Inr (idx, out) \<Rightarrow> Inr (st1\<lparr>imuIdx := idx, imuStart := out\<rparr>))
               else Inr st1)
      in case r of
           Inl e \<Rightarrow> Inl e
         | Inr st2 \<Rightarrow>
             Inr (if newSweep
                  then st2\<lparr>sweepStart := t, laserCloud := [], cornerPointsSharp := [],
                         cornerPointsLessSharp := [], surfacePointsFlat := [],
                         surfacePointsLessFlat := [], scanIndices := []\<rparr>
                  else st2))"

definition setIMUTransformFor :: "ScanRegistration \<Rightarrow> real \<Rightarrow> error + ScanRegistration" where
  "setIMUTransformFor st relTime =
     (case interpolateIMUStateFor (scanTime st) (items (imuHistory st)) (imuIdx st) relTime of
        Inl e \<Rightarrow> Inl e
      | Inr (idx, out) \<Rightarrow>
          let relSweepTime = (scanTime st - sweepStart st) + relTime
          in Inr (st\<lparr>imuIdx := idx, imuCur := out,
                    imuPositionShift :=
                      v3sub (v3sub (position out) (position (imuStart st)))
                        (v3scale (velocity (imuStart st)) relSweepTime)\<rparr>))"

text \<open>
  \<open>transformToStartIMU\<close>: rotate to the global frame, add the position shift, rotate back
  to the start frame.  The rotations write the three coordinates of the point only.
\<close>

definition coords :: "PointXYZI \<Rightarrow> Vector3" where
  "coords p = (pt_x p, pt_y p, pt_z p)"

definition setCoords :: "PointXYZI \<Rightarrow> Vector3 \<Rightarrow> PointXYZI" where
  "setCoords p v = p\<lparr>pt_x := v3x v, pt_y := v3y v, pt_z := v3z v\<rparr>"

definition transformToStartIMU ::
  "rotation \<Rightarrow> rotation \<Rightarrow> ScanRegistration \<Rightarrow> PointXYZI \<Rightarrow> PointXYZI" where
  "transformToStartIMU rotateZXY rotateYXZ st point =
     (let p1 = setCoords point
                 (rotateZXY (coords point) (roll (imuCur st)) (pitch (imuCur st)) (yaw (imuCur st)));
          p2 = p1\<lparr>pt_x := pt_x p1 + v3x (imuPositionShift st),
                  pt_y := pt_y p1 + v3y (imuPositionShift st),
                  pt_z := pt_z p1 + v3z (imuPositionShift st)\<rparr>
      in setCoords p2
           (rotateYXZ (coords p2) (- yaw (imuStart st)) (- pitch (imuStart st))
              (- roll (imuStart st))))"

section \<open>MultiScanRegistration::process: segmentation of a sweep\<close>

text \<open>
  \<open>std::atan2(y, x)\<close> on finite arguments (signed zeros are not distinguished), and the
  vertical angle \<open>std::atan(y / std::sqrt(x * x + z * z))\<close>, where a zero divisor gives an
  infinite quotient whose arc tangent is a right angle.
\<close>

definition atan2 :: "real \<Rightarrow> real \<Rightarrow> real" where
  "atan2 y x =
     (if 0 < x then arctan (y / x)
      else if x < 0 then (if 0 \<le> y then arctan (y / x) + pi else arctan (y / x) - pi)
      else if 0 < y then pi / 2
      else if y < 0 then - pi / 2
      else 0)"

definition verticalAngle :: "PointXYZI \<Rightarrow> real" where
  "verticalAngle p =
     (let d = sqrt (pt_x p * pt_x p + pt_z p * pt_z p)
      in if d = 0 then (if 0 < pt_y p then pi / 2 else if pt_y p < 0 then - pi / 2 else 0)
         else arctan (pt_y p / d))"

text \<open>An unchecked read \<open>v[i]\<close> of a vector: outside the vector it is an error.\<close>

definition read_at :: "'a list \<Rightarrow> nat \<Rightarrow> error + 'a" where
  "read_at xs i = (if i < length xs then Inr (xs ! i) else Inl OutOfBounds)"

text \<open>The difference of two \<open>size_t\<close> values (64 bits): it wraps around.\<close>

definition size_t_sub :: "nat \<Rightarrow> nat \<Rightarrow> nat" where
  "size_t_sub a b = (a + 2 ^ 64 - b mod 2 ^ 64) mod 2 ^ 64"

text \<open>The end orientation, moved by a full turn when it is too far from or too near to the start.\<close>

definition adjustEndOri :: "real \<Rightarrow> real \<Rightarrow> real" where
  "adjustEndOri startOri endOri =
     (if endOri - startOri > 3 * pi then endOri - 2 * pi
      else if endOri - startOri < pi then endOri + 2 * pi
      else endOri)"

text \<open>
  The unwrapping of the horizontal angle of a point against the start and end
  orientations; it returns the angle and the new half-passed flag.
\<close>

definition unwrapOri :: "real \<Rightarrow> real \<Rightarrow> bool \<Rightarrow> real \<Rightarrow> real \<times> bool" where
  "unwrapOri startOri endOri halfPassed ori0 =
     (if \<not> halfPassed then
        let ori = (if ori0 < startOri - pi / 2 then ori0 + 2 * pi
                   else if ori0 > startOri + pi * 3 / 2 then ori0 - 2 * pi
                   else ori0)
        in (ori, ori - startOri > pi)
      else
        let ori1 = ori0 + 2 * pi;
            ori = (if ori1 < endOri - pi * 3 / 2 then ori1 + 2 * pi
                   else if ori1 > endOri + pi / 2 then ori1 - 2 * pi
                   else ori1)
        in (ori, True))"

text \<open>
  The state of the loop over the input points: the half-passed flag, the per-ring clouds
  and the registration state (cursor, current IMU state and position shift).
\<close>

record SegState =
  halfPassed :: bool
  laserCloudScans :: "PointXYZI list list"
  reg :: ScanRegistration

text \<open>One iteration of the loop \<open>for (size_t i = 0; i < cloudSize; i++)\<close>.\<close>

definition processPoint ::
  "rotation \<Rightarrow> rotation \<Rightarrow> MultiScanMapper \<Rightarrow> real \<Rightarrow> real \<Rightarrow> PointXYZ \<Rightarrow> SegState
     \<Rightarrow> error + SegState" where
  "processPoint rotateZXY rotateYXZ scanMapper startOri endOri p s =
     (let point = \<lparr>pt_x = in_y p, pt_y = in_z p, pt_z = in_x p, intensity = 0\<rparr>
      in if pt_x point * pt_x point + pt_y point * pt_y point + pt_z point * pt_z point < 0.0001
         then Inr s
         else
           let angle = verticalAngle point;
               scanID = getRingForAngle scanMapper angle
           in if ringDiscarded scanMapper scanID then Inr s
              else
                let (ori, hp) = unwrapOri startOri endOri (halfPassed s)
                                  (- atan2 (pt_x point) (pt_z point));
                    relTime = scanPeriod (params (reg s)) * (ori - startOri) / (endOri - startOri);
                    point1 = point\<lparr>intensity := real_of_int scanID + relTime\<rparr>;
                    r = (if hasIMUData (reg s)
                         then (case setIMUTransformFor (reg s) relTime of
                                 Inl e \<Rightarrow> Inl e
                               | Inr st \<Rightarrow>
                                   Inr (st, transformToStartIMU rotateZXY rotateYXZ st point1))
                         else Inr (reg s, point1))
                in case r of
                     Inl e \<Rightarrow> Inl e
                   | Inr (st, point2) \<Rightarrow>
                       Inr \<lparr>halfPassed = hp,
                            laserCloudScans =
                              (laserCloudScans s)
                                [nat scanID := laserCloudScans s ! nat scanID @ [point2]],
                            reg = st\<rparr>)"

fun processPoints ::
  "rotation \<Rightarrow> rotation \<Rightarrow> MultiScanMapper \<Rightarrow> real \<Rightarrow> real \<Rightarrow> PointXYZ list \<Rightarrow> SegState
     \<Rightarrow> error + SegState" where
  "processPoints rotateZXY rotateYXZ scanMapper startOri endOri [] s = Inr s"
| "processPoints rotateZXY rotateYXZ scanMapper startOri endOri (p # ps) s =
     (case processPoint rotateZXY rotateYXZ scanMapper startOri endOri p s of
        Inl e \<Rightarrow> Inl e
      | Inr s' \<Rightarrow> processPoints rotateZXY rotateYXZ scanMapper startOri endOri ps s')"

text \<open>
  The loop that builds the sorted full-resolution cloud and the scan indices; the
  accumulator is \<open>_laserCloud\<close>, \<open>_scanIndices\<close> and the local \<open>cloudSize\<close>.
\<close>

fun buildCloud ::
  "PointXYZI list list \<Rightarrow> PointXYZI list \<times> IndexRange list \<times> nat
     \<Rightarrow> PointXYZI list \<times> IndexRange list \<times> nat" where
  "buildCloud [] acc = acc"
| "buildCloud (scan # scans) (cloud, indices, cloudSize) =
     (let cloudSize' = cloudSize + length scan;
          range = (cloudSize, if cloudSize' > 0 then cloudSize' - 1 else 0)
      in buildCloud scans (cloud @ scan, indices @ [range], cloudSize'))"

text \<open>
  \<open>process\<close> up to the call of \<open>extractFeatures\<close>: reset, start and end orientation from
  the first and the last input point, the loop over the points, and the sorted cloud.
  It returns the per-ring clouds together with the new registration state.
\<close>

definition segmentSweep ::
  "rotation \<Rightarrow> rotation \<Rightarrow> MultiScanMapper \<Rightarrow> ScanRegistration \<Rightarrow> PointXYZ list \<Rightarrow> real
     \<Rightarrow> error + (PointXYZI list list \<times> ScanRegistration)" where
  "segmentSweep rotateZXY rotateYXZ scanMapper st laserCloudIn t =
     (let cloudSize = length laserCloudIn
      in case reset st t True of
           Inl e \<Rightarrow> Inl e
         | Inr st1 \<Rightarrow>
             (case read_at laserCloudIn 0 of
                Inl e \<Rightarrow> Inl e
              | Inr firstPoint \<Rightarrow>
                  (case read_at laserCloudIn (size_t_sub cloudSize 1) of
                     Inl e \<Rightarrow> Inl e
                   | Inr lastPoint \<Rightarrow>
                       let startOri = - atan2 (in_y firstPoint) (in_x firstPoint);
                           endOri = adjustEndOri startOri
                                      (- atan2 (in_y lastPoint) (in_x lastPoint) + 2 * pi)
                       in case processPoints rotateZXY rotateYXZ scanMapper startOri endOri
                                 laserCloudIn
                                 \<lparr>halfPassed = False,
                                  laserCloudScans =
                                    replicate (getNumberOfScanRings scanMapper) [],
                                  reg = st1\<rparr> of
                            Inl e \<Rightarrow> Inl e
                          | Inr s \<Rightarrow>
                              let (cloud, indices, n) =
                                    buildCloud (laserCloudScans s)
                                      (laserCloud (reg s), scanIndices (reg s), 0)
                              in Inr (laserCloudScans s,
                                      (reg s)\<lparr>laserCloud := cloud, scanIndices := indices\<rparr>))))"

text \<open>The number of points in the rings below ring \<open>i\<close>.\<close>

definition ringStart :: "'a list list \<Rightarrow> nat \<Rightarrow> nat" where
  "ringStart scans i = sum_list (map length (take i scans))"

text \<open>The cloud indices that an index range covers, both ends included.\<close>

definition covered :: "IndexRange \<Rightarrow> nat set" where
  "covered r = {fst r .. snd r}"


section \<open>Feature extraction\<close>

text \<open>
  Modelled from the spec: the helpers of loam_utils/math_utils.h, which is not among the
  sources.  \<open>calcSquaredDiff\<close> is the squared distance between two points, and with a third
  argument the squared distance after the second point has been scaled by that weight
  (its offset is distance-normalised); \<open>calcPointDistance\<close> is the range of a point and
  \<open>calcSquaredPointDistance\<close> its squared range.
\<close>

definition calcSquaredDiff :: "PointXYZI \<Rightarrow> PointXYZI \<Rightarrow> real" where
  "calcSquaredDiff a b =
     (pt_x a - pt_x b) * (pt_x a - pt_x b) + (pt_y a - pt_y b) * (pt_y a - pt_y b)
       + (pt_z a - pt_z b) * (pt_z a - pt_z b)"

definition calcSquaredDiffW :: "PointXYZI \<Rightarrow> PointXYZI \<Rightarrow> real \<Rightarrow> real" where
  "calcSquaredDiffW a b wb =
     (pt_x a - pt_x b * wb) * (pt_x a - pt_x b * wb)
       + (pt_y a - pt_y b * wb) * (pt_y a - pt_y b * wb)
       + (pt_z a - pt_z b * wb) * (pt_z a - pt_z b * wb)"

definition calcSquaredPointDistance :: "PointXYZI \<Rightarrow> real" where
  "calcSquaredPointDistance p = pt_x p * pt_x p + pt_y p * pt_y p + pt_z p * pt_z p"

definition calcPointDistance :: "PointXYZI \<Rightarrow> real" where
  "calcPointDistance p = sqrt (calcSquaredPointDistance p)"

text \<open>
  The comparison \<open>a / b < c\<close> of floating values with \<open>a\<close> and \<open>b\<close> not negative: a zero
  divisor gives an infinite quotient or NaN, and the comparison is false.
\<close>

definition quotientLess :: "real \<Rightarrow> real \<Rightarrow> real \<Rightarrow> bool" where
  "quotientLess a b c = (b \<noteq> 0 \<and> a / b < c)"

subsection \<open>setScanBuffersFor\<close>

text \<open>\<open>std::fill_n(&v[a], n, x)\<close>: the \<open>n\<close> entries from index \<open>a\<close> on become \<open>x\<close>.\<close>

definition fill_n :: "'a list \<Rightarrow> nat \<Rightarrow> nat \<Rightarrow> 'a \<Rightarrow> 'a list" where
  "fill_n v a n x = map (\<lambda>k. if a \<le> k \<and> k < a + n then x else v ! k) [0..<length v]"

text \<open>
  The conditions of the loop body at cloud index \<open>i\<close>.  \<open>occludedBefore\<close>: the next point is
  much nearer and the jump is within the wedge tolerance (the body then marks the points
  up to \<open>i\<close> and continues with the next index).  \<open>occludedAfter\<close>: the same with the next
  point not nearer (the body marks the points after \<open>i\<close>).  \<open>gapsExceed\<close>: both neighbour
  gaps are above \<open>0.0002\<close> times the squared range of the point.
\<close>

definition occludedBefore :: "PointXYZI list \<Rightarrow> nat \<Rightarrow> bool" where
  "occludedBefore cloud i =
     (let point = cloud ! i; nextPoint = cloud ! (i + 1);
          diffNext = calcSquaredDiff nextPoint point;
          depth1 = calcPointDistance point; depth2 = calcPointDistance nextPoint
      in diffNext > 0.1 \<and> depth1 > depth2
         \<and> quotientLess (sqrt (calcSquaredDiffW nextPoint point (depth2 / depth1))) depth2 0.1)"

definition occludedAfter :: "PointXYZI list \<Rightarrow> nat \<Rightarrow> bool" where
  "occludedAfter cloud i =
     (let point = cloud ! i; nextPoint = cloud ! (i + 1);
          diffNext = calcSquaredDiff nextPoint point;
          depth1 = calcPointDistance point; depth2 = calcPointDistance nextPoint
      in diffNext > 0.1 \<and> \<not> depth1 > depth2
         \<and> quotientLess (sqrt (calcSquaredDiffW point nextPoint (depth1 / depth2))) depth1 0.1)"

definition gapsExceed :: "PointXYZI list \<Rightarrow> nat \<Rightarrow> bool" where
  "gapsExceed cloud i =
     (let previousPoint = cloud ! (i - 1); point = cloud ! i; nextPoint = cloud ! (i + 1);
          diffNext = calcSquaredDiff nextPoint point;
          diffPrevious = calcSquaredDiff point previousPoint;
          dis = calcSquaredPointDistance point
      in diffNext > 0.0002 * dis \<and> diffPrevious > 0.0002 * dis)"

text \<open>One iteration of \<open>for (i = startIdx + curvatureRegion; i < endIdx - curvatureRegion; i++)\<close>.\<close>

definition scanStep :: "nat \<Rightarrow> PointXYZI list \<Rightarrow> nat \<Rightarrow> int list \<Rightarrow> nat \<Rightarrow> int list" where
  "scanStep cr cloud startIdx picked i =
     (if occludedBefore cloud i then fill_n picked (i - startIdx - cr) (cr + 1) 1
      else
        let picked1 = (if occludedAfter cloud i then fill_n picked (i - startIdx + 1) (cr + 1) 1
                       else picked)
        in if gapsExceed cloud i then picked1[i - startIdx := 1] else picked1)"

definition scanFlags :: "nat \<Rightarrow> PointXYZI list \<Rightarrow> nat \<Rightarrow> nat \<Rightarrow> int list" where
  "scanFlags cr cloud startIdx endIdx =
     foldl (scanStep cr cloud startIdx) (replicate (endIdx - startIdx + 1) 0)
       [startIdx + cr ..< endIdx - cr]"

definition setScanBuffersFor :: "ScanRegistration \<Rightarrow> nat \<Rightarrow> nat \<Rightarrow> ScanRegistration" where
  "setScanBuffersFor st startIdx endIdx =
     st\<lparr>scanNeighborPicked :=
          scanFlags (curvatureRegion (params st)) (laserCloud st) startIdx endIdx\<rparr>"

subsection \<open>setRegionBuffersFor\<close>

text \<open>
  The curvature of the point at cloud index \<open>i\<close>: the point weighted by
  \<open>- 2 * curvatureRegion\<close> plus its neighbours on both sides, per axis, squared and summed.
\<close>

definition curvatureAt :: "nat \<Rightarrow> PointXYZI list \<Rightarrow> nat \<Rightarrow> real" where
  "curvatureAt cr cloud i =
     (let pointWeight = real_of_int (- 2 * int cr);
          diffX = pointWeight * pt_x (cloud ! i)
                    + (\<Sum>j\<leftarrow>[1..<Suc cr]. pt_x (cloud ! (i + j)) + pt_x (cloud ! (i - j)));
          diffY = pointWeight * pt_y (cloud ! i)
                    + (\<Sum>j\<leftarrow>[1..<Suc cr]. pt_y (cloud ! (i + j)) + pt_y (cloud ! (i - j)));
          diffZ = pointWeight * pt_z (cloud ! i)
                    + (\<Sum>j\<leftarrow>[1..<Suc cr]. pt_z (cloud ! (i + j)) + pt_z (cloud ! (i - j)))
      in diffX * diffX + diffY * diffY + diffZ * diffZ)"

text \<open>
  The inner loop \<open>for (size_t j = i; j >= 1; j--)\<close> of the sort: neighbours are swapped
  when the right one has the smaller curvature; the loop does not stop early.
\<close>

fun sortPass :: "(nat \<Rightarrow> real) \<Rightarrow> nat list \<Rightarrow> nat \<Rightarrow> nat list" where
  "sortPass key idxs 0 = idxs"
| "sortPass key idxs (Suc j) =
     sortPass key
       (if key (idxs ! Suc j) < key (idxs ! j)
        then idxs[Suc j := idxs ! j, j := idxs ! Suc j] else idxs) j"

definition sortRegion :: "(nat \<Rightarrow> real) \<Rightarrow> nat list \<Rightarrow> nat list" where
  "sortRegion key idxs = foldl (sortPass key) idxs [1..<length idxs]"

definition setRegionBuffersFor :: "ScanRegistration \<Rightarrow> nat \<Rightarrow> nat \<Rightarrow> ScanRegistration" where
  "setRegionBuffersFor st startIdx endIdx =
     (let regionSize = endIdx - startIdx + 1;
          curv = map (curvatureAt (curvatureRegion (params st)) (laserCloud st))
                   [startIdx ..< startIdx + regionSize]
      in st\<lparr>regionCurvature := curv,
            regionLabel := replicate regionSize SURFACE_LESS_FLAT,
            regionSortIndices :=
              sortRegion (\<lambda>idx. curv ! (idx - startIdx)) [startIdx ..< startIdx + regionSize]\<rparr>)"

subsection \<open>markAsPicked\<close>

text \<open>
  The two loops over \<open>i = 1 .. curvatureRegion\<close>; each stops at the first consecutive pair
  of points that is more than \<open>0.05\<close> apart (squared).  The last argument counts the
  iterations that are left.
\<close>

fun markForward :: "PointXYZI list \<Rightarrow> nat \<Rightarrow> nat \<Rightarrow> int list \<Rightarrow> nat \<Rightarrow> nat \<Rightarrow> int list" where
  "markForward cloud cloudIdx scanIdx picked i 0 = picked"
| "markForward cloud cloudIdx scanIdx picked i (Suc n) =
     (if calcSquaredDiff (cloud ! (cloudIdx + i)) (cloud ! (cloudIdx + i - 1)) > 0.05 then picked
      else markForward cloud cloudIdx scanIdx (picked[scanIdx + i := 1]) (i + 1) n)"

fun markBackward :: "PointXYZI list \<Rightarrow> nat \<Rightarrow> nat \<Rightarrow> int list \<Rightarrow> nat \<Rightarrow> nat \<Rightarrow> int list" where
  "markBackward cloud cloudIdx scanIdx picked i 0 = picked"
| "markBackward cloud cloudIdx scanIdx picked i (Suc n) =
     (if calcSquaredDiff (cloud ! (cloudIdx - i)) (cloud ! (cloudIdx - i + 1)) > 0.05 then picked
      else markBackward cloud cloudIdx scanIdx (picked[scanIdx - i := 1]) (i + 1) n)"

definition markAsPicked :: "ScanRegistration \<Rightarrow> nat \<Rightarrow> nat \<Rightarrow> ScanRegistration" where
  "markAsPicked st cloudIdx scanIdx =
     (let cr = curvatureRegion (params st);
          p0 = (scanNeighborPicked st)[scanIdx := 1];
          p1 = markForward (laserCloud st) cloudIdx scanIdx p0 1 cr;
          p2 = markBackward (laserCloud st) cloudIdx scanIdx p1 1 cr
      in st\<lparr>scanNeighborPicked := p2\<rparr>)"

subsection \<open>The selection loops of extractFeatures\<close>

text \<open>
  The test of the corner loop on the point at cloud index \<open>idx\<close>, and the statements
  under it: the counter has been incremented to \<open>n\<close>, the point is labelled and pushed to
  the corner clouds, and it is marked as picked together with its neighbours.
\<close>

definition cornerCandidate :: "nat \<Rightarrow> nat \<Rightarrow> ScanRegistration \<Rightarrow> nat \<Rightarrow> bool" where
  "cornerCandidate scanStartIdx sp st idx =
     (scanNeighborPicked st ! (idx - scanStartIdx) = 0
      \<and> regionCurvature st ! (idx - sp) > surfaceCurvatureThreshold (params st))"

definition selectCorner :: "nat \<Rightarrow> nat \<Rightarrow> ScanRegistration \<Rightarrow> nat \<Rightarrow> int \<Rightarrow> ScanRegistration" where
  "selectCorner scanStartIdx sp st idx n =
     (let scanIdx = idx - scanStartIdx;
          regionIdx = idx - sp;
          st1 = (if n \<le> maxCornerSharp (params st)
                 then st\<lparr>regionLabel := (regionLabel st)[regionIdx := CORNER_SHARP],
                         cornerPointsSharp := cornerPointsSharp st @ [laserCloud st ! idx]\<rparr>
                 else st\<lparr>regionLabel := (regionLabel st)[regionIdx := CORNER_LESS_SHARP]\<rparr>);
          st2 = st1\<lparr>cornerPointsLessSharp :=
                      cornerPointsLessSharp st1 @ [laserCloud st1 ! idx]\<rparr>
      in markAsPicked st2 idx scanIdx)"

text \<open>
  The corner loop
  \<open>for (size_t k = regionSize; k > 0 && largestPickedNum < maxCornerLessSharp;)\<close>.
  The arguments are the start index of the scan, the start index \<open>sp\<close> of the region, the
  loop variable \<open>k\<close>, the state and the counter \<open>largestPickedNum\<close>.
\<close>

fun cornerLoop ::
  "nat \<Rightarrow> nat \<Rightarrow> nat \<Rightarrow> ScanRegistration \<Rightarrow> int \<Rightarrow> ScanRegistration \<times> int" where
  "cornerLoop scanStartIdx sp 0 st largestPickedNum = (st, largestPickedNum)"
| "cornerLoop scanStartIdx sp (Suc k) st largestPickedNum =
     (if largestPickedNum < maxCornerLessSharp (params st) then
        let idx = regionSortIndices st ! k
        in if cornerCandidate scanStartIdx sp st idx
           then cornerLoop scanStartIdx sp k
                  (selectCorner scanStartIdx sp st idx (largestPickedNum + 1))
                  (largestPickedNum + 1)
           else cornerLoop scanStartIdx sp k st largestPickedNum
      else (st, largestPickedNum))"

text \<open>
  The test of the flat surface loop and the statements under it.
\<close>

definition flatCandidate :: "nat \<Rightarrow> nat \<Rightarrow> ScanRegistration \<Rightarrow> nat \<Rightarrow> bool" where
  "flatCandidate scanStartIdx sp st idx =
     (scanNeighborPicked st ! (idx - scanStartIdx) = 0
      \<and> regionCurvature st ! (idx - sp) < surfaceCurvatureThreshold (params st))"

definition selectFlat :: "nat \<Rightarrow> nat \<Rightarrow> ScanRegistration \<Rightarrow> nat \<Rightarrow> ScanRegistration" where
  "selectFlat scanStartIdx sp st idx =
     (let scanIdx = idx - scanStartIdx;
          regionIdx = idx - sp;
          st1 = st\<lparr>regionLabel := (regionLabel st)[regionIdx := SURFACE_FLAT],
                   surfacePointsFlat := surfacePointsFlat st @ [laserCloud st ! idx]\<rparr>
      in markAsPicked st1 idx scanIdx)"

text \<open>
  The conversion \<open>(size_t) i\<close> of an \<open>int\<close> to the 64-bit unsigned type: a negative value
  wraps around.
\<close>

definition size_t_cast :: "int \<Rightarrow> nat" where
  "size_t_cast i = nat (i mod 2 ^ 64)"

text \<open>
  The flat surface loop
  \<open>for (size_t k = 0; k < regionSize && smallestPickedNum < (size_t) maxSurfaceFlat; k++)\<close>;
  the first argument counts the iterations that are left.
\<close>

fun flatLoop ::
  "nat \<Rightarrow> nat \<Rightarrow> nat \<Rightarrow> nat \<Rightarrow> ScanRegistration \<Rightarrow> nat \<Rightarrow> ScanRegistration \<times> nat" where
  "flatLoop 0 scanStartIdx sp k st smallestPickedNum = (st, smallestPickedNum)"
| "flatLoop (Suc left) scanStartIdx sp k st smallestPickedNum =
     (if smallestPickedNum < size_t_cast (maxSurfaceFlat (params st)) then
        let idx = regionSortIndices st ! k
        in if flatCandidate scanStartIdx sp st idx
           then flatLoop left scanStartIdx sp (k + 1) (selectFlat scanStartIdx sp st idx)
                  (smallestPickedNum + 1)
           else flatLoop left scanStartIdx sp (k + 1) st smallestPickedNum
      else (st, smallestPickedNum))"

text \<open>
  The less flat surface points of a region: the points whose label is at most
  \<open>SURFACE_LESS_FLAT\<close>, in the order of the region.
\<close>

definition lessFlatOfRegion :: "ScanRegistration \<Rightarrow> nat \<Rightarrow> nat \<Rightarrow> PointXYZI list" where
  "lessFlatOfRegion st sp regionSize =
     map (\<lambda>k. laserCloud st ! (sp + k))
       (filter (\<lambda>k. labelValue (regionLabel st ! k) \<le> labelValue SURFACE_LESS_FLAT)
          [0..<regionSize])"

text \<open>
  The body of the loop over the feature regions for one region \<open>sp .. ep\<close> that is not
  skipped: the region buffers, the corner loop, the flat loop and the less flat points,
  which are appended to the cloud of the current scan.
\<close>

definition extractRegion ::
  "nat \<Rightarrow> nat \<Rightarrow> nat \<Rightarrow> ScanRegistration \<times> PointXYZI list
     \<Rightarrow> ScanRegistration \<times> PointXYZI list" where
  "extractRegion scanStartIdx sp ep acc =
     (let (st, surfPointsLessFlatScan) = acc;
          regionSize = ep - sp + 1;
          st1 = setRegionBuffersFor st sp ep;
          (st2, largestPickedNum) = cornerLoop scanStartIdx sp regionSize st1 0;
          (st3, smallestPickedNum) = flatLoop regionSize scanStartIdx sp 0 st2 0
      in (st3, surfPointsLessFlatScan @ lessFlatOfRegion st3 sp regionSize))"

text \<open>The bounds of feature region \<open>j\<close> of a scan; the second is computed in \<open>size_t\<close>.\<close>

definition regionStart :: "ScanRegistrationParams \<Rightarrow> nat \<Rightarrow> nat \<Rightarrow> nat \<Rightarrow> nat" where
  "regionStart p scanStartIdx scanEndIdx j =
     ((scanStartIdx + curvatureRegion p) * (nFeatureRegions p - j)
        + (scanEndIdx - curvatureRegion p) * j) div nFeatureRegions p"

definition regionEnd :: "ScanRegistrationParams \<Rightarrow> nat \<Rightarrow> nat \<Rightarrow> nat \<Rightarrow> nat" where
  "regionEnd p scanStartIdx scanEndIdx j =
     size_t_sub
       (((scanStartIdx + curvatureRegion p) * (nFeatureRegions p - 1 - j)
          + (scanEndIdx - curvatureRegion p) * (j + 1)) div nFeatureRegions p) 1"

text \<open>
  One scan of \<open>extractFeatures\<close>.  Scans that are too short are skipped.  The voxel grid
  filter of the point cloud library is a parameter \<open>downSize\<close>.
\<close>

definition extractScan ::
  "(real \<Rightarrow> PointXYZI list \<Rightarrow> PointXYZI list) \<Rightarrow> ScanRegistration \<Rightarrow> IndexRange
     \<Rightarrow> ScanRegistration" where
  "extractScan downSize st scanRange =
     (let scanStartIdx = fst scanRange; scanEndIdx = snd scanRange
      in if scanEndIdx \<le> scanStartIdx + 2 * curvatureRegion (params st) then st
         else
           let st1 = setScanBuffersFor st scanStartIdx scanEndIdx;
               (st2, surfPointsLessFlatScan) =
                 foldl (\<lambda>acc j.
                          let sp = regionStart (params st) scanStartIdx scanEndIdx j;
                              ep = regionEnd (params st) scanStartIdx scanEndIdx j
                          in if ep \<le> sp then acc else extractRegion scanStartIdx sp ep acc)
                   (st1, []) [0..<nFeatureRegions (params st)]
           in st2\<lparr>surfacePointsLessFlat :=
                    surfacePointsLessFlat st2
                      @ downSize (lessFlatFilterSize (params st2)) surfPointsLessFlatScan\<rparr>)"

definition extractFeatures ::
  "(real \<Rightarrow> PointXYZI list \<Rightarrow> PointXYZI list) \<Rightarrow> ScanRegistration \<Rightarrow> nat
     \<Rightarrow> ScanRegistration" where
  "extractFeatures downSize st beginIdx =
     foldl (extractScan downSize) st (drop beginIdx (scanIndices st))"

subsection \<open>Auxiliary notions for the results\<close>

text \<open>
  The entries \<open>j\<close> of the picked flags that the occlusion rule of iteration \<open>i\<close> sets, and
  the entries that the occlusion rule of some iteration of the loop sets.
\<close>

definition occlusionMarks :: "nat \<Rightarrow> PointXYZI list \<Rightarrow> nat \<Rightarrow> nat \<Rightarrow> nat \<Rightarrow> bool" where
  "occlusionMarks cr cloud startIdx i j =
     (occludedBefore cloud i \<and> i - startIdx - cr \<le> j \<and> j \<le> i - startIdx
      \<or> occludedAfter cloud i \<and> i - startIdx + 1 \<le> j \<and> j \<le> i - startIdx + 1 + cr)"

definition occlusionMarked :: "nat \<Rightarrow> PointXYZI list \<Rightarrow> nat \<Rightarrow> nat \<Rightarrow> nat \<Rightarrow> bool" where
  "occlusionMarked cr cloud startIdx endIdx j =
     (\<exists>i \<in> {startIdx + cr ..< endIdx - cr}. occlusionMarks cr cloud startIdx i j)"

text \<open>
  The cloud indices that the corner loop selects, in the order of selection: the loop
  itself, returning the selected indices instead of the state.  Likewise for the flat
  surface loop.
\<close>

fun cornerPicks :: "nat \<Rightarrow> nat \<Rightarrow> nat \<Rightarrow> ScanRegistration \<Rightarrow> int \<Rightarrow> nat list" where
  "cornerPicks scanStartIdx sp 0 st largestPickedNum = []"
| "cornerPicks scanStartIdx sp (Suc k) st largestPickedNum =
     (if largestPickedNum < maxCornerLessSharp (params st) then
        let idx = regionSortIndices st ! k
        in if cornerCandidate scanStartIdx sp st idx
           then idx # cornerPicks scanStartIdx sp k
                        (selectCorner scanStartIdx sp st idx (largestPickedNum + 1))
                        (largestPickedNum + 1)
           else cornerPicks scanStartIdx sp k st largestPickedNum
      else [])"

fun flatPicks :: "nat \<Rightarrow> nat \<Rightarrow> nat \<Rightarrow> nat \<Rightarrow> ScanRegistration \<Rightarrow> nat \<Rightarrow> nat list" where
  "flatPicks 0 scanStartIdx sp k st smallestPickedNum = []"
| "flatPicks (Suc left) scanStartIdx sp k st smallestPickedNum =
     (if smallestPickedNum < size_t_cast (maxSurfaceFlat (params st)) then
        let idx = regionSortIndices st ! k
        in if flatCandidate scanStartIdx sp st idx
           then idx # flatPicks left scanStartIdx sp (k + 1) (selectFlat scanStartIdx sp st idx)
                        (smallestPickedNum + 1)
           else flatPicks left scanStartIdx sp (k + 1) st smallestPickedNum
      else [])"

text \<open>
  The cloud indices of the less flat surface points of a region, of which
  \<open>lessFlatOfRegion\<close> takes the points.
\<close>

definition lessFlatIndices :: "ScanRegistration \<Rightarrow> nat \<Rightarrow> nat \<Rightarrow> nat list" where
  "lessFlatIndices st sp regionSize =
     map (\<lambda>k. sp + k)
       (filter (\<lambda>k. labelValue (regionLabel st ! k) \<le> labelValue SURFACE_LESS_FLAT)
          [0..<regionSize])"

text \<open>
  The neighbours that \<open>markAsPicked\<close> marks together with the point at cloud index \<open>c\<close>:
  the point \<open>j\<close> lies at most \<open>cr\<close> points after or before \<open>c\<close>, and no two consecutive
  points from \<open>c\<close> to \<open>j\<close> are more than \<open>0.05\<close> apart (squared).
\<close>

definition pickedNeighbour :: "nat \<Rightarrow> PointXYZI list \<Rightarrow> nat \<Rightarrow> nat \<Rightarrow> bool" where
  "pickedNeighbour cr cloud c j =
     ((\<exists>i \<in> {1 .. cr}. j = c + i
          \<and> (\<forall>l \<in> {1 .. i}.
                \<not> calcSquaredDiff (cloud ! (c + l)) (cloud ! (c + l - 1)) > 0.05))
      \<or> (\<exists>i \<in> {1 .. cr}. i \<le> c \<and> j = c - i
          \<and> (\<forall>l \<in> {1 .. i}.
                \<not> calcSquaredDiff (cloud ! (c - l)) (cloud ! (c - l + 1)) > 0.05)))"

text \<open>The flags of the second list are those of the first, except where they became \<open>1\<close>.\<close>

definition onlyOnes :: "int list \<Rightarrow> int list \<Rightarrow> bool" where
  "onlyOnes p p' = (length p' = length p \<and> (\<forall>j. p' ! j = p ! j \<or> p' ! j = 1))"

section \<open>Transform maintenance\<close>

text \<open>
  The fields of the class \<open>TransformMaintenance\<close> as loam/TransformMaintenance.h declares
  them.  A pose is an element of a group of rigid motions: \<open>a + b\<close> is the composition of
  the pose \<open>a\<close> with the motion \<open>b\<close> expressed in the frame of \<open>a\<close>, \<open>0\<close> is the pose of no
  motion and \<open>- a\<close> is the inverse motion.  The composition is not assumed to commute.
\<close>

record 'p TransformMaintenance =
  transformSum :: 'p
  transformIncre :: 'p
  transformMapped :: 'p
  transformBefMapped :: 'p
  transformAftMapped :: 'p

text \<open>
  Modelled from the spec: the bodies of \<open>transformAssociateToMap\<close>,
  \<open>processOdometryTransform\<close> and \<open>processMappingTransform\<close> (TransformMaintenance.cpp),
  which are not among the sources; the header declares them only.  On a new odometry
  sample the relative motion since \<open>transformBefMapped\<close> is computed, the difference
  between the current \<open>transformSum\<close> and the snapshot, and it is added to
  \<open>transformAftMapped\<close> in the frame of the corrected pose; the result is the fused output
  \<open>transformMapped\<close>.  A new mapping correction replaces \<open>transformBefMapped\<close> and
  \<open>transformAftMapped\<close> by the new snapshot and correction.
\<close>

definition transformAssociateToMap ::
  "('p::group_add) TransformMaintenance \<Rightarrow> 'p TransformMaintenance" where
  "transformAssociateToMap tm =
     (let tm1 = tm\<lparr>transformIncre := - transformBefMapped tm + transformSum tm\<rparr>
      in tm1\<lparr>transformMapped := transformAftMapped tm1 + transformIncre tm1\<rparr>)"

definition processOdometryTransform ::
  "('p::group_add) TransformMaintenance \<Rightarrow> 'p \<Rightarrow> 'p TransformMaintenance" where
  "processOdometryTransform tm pose = transformAssociateToMap (tm\<lparr>transformSum := pose\<rparr>)"

definition processMappingTransform ::
  "'p TransformMaintenance \<Rightarrow> 'p \<Rightarrow> 'p \<Rightarrow> 'p TransformMaintenance" where
  "processMappingTransform tm aftMapped befMapped =
     tm\<lparr>transformAftMapped := aftMapped, transformBefMapped := befMapped\<rparr>"

section \<open>Concrete inputs\<close>

text \<open>An IMU message of a sensor at rest attitude that accelerates by one unit.\<close>

definition still_msg :: "real \<Rightarrow> ImuMsg" where
  "still_msg t = \<lparr>msg_stamp = t, msg_roll = 0, msg_pitch = 0, msg_yaw = 0,
      linear_acceleration = (1, 0, 9.81)\<rparr>"



text \<open>
  A registration state with the default parameters of loam/Parameters.h, an empty IMU
  history and empty clouds.
\<close>

definition defaultParams :: ScanRegistrationParams where
  "defaultParams =
     \<lparr>scanPeriod = 0.1, imuHistorySize = 200, nFeatureRegions = 6, curvatureRegion = 5,
      maxCornerSharp = 2, maxCornerLessSharp = 20, maxSurfaceFlat = 4,
      lessFlatFilterSize = 0.2, surfaceCurvatureThreshold = 0.1\<rparr>"

definition reg0 :: ScanRegistration where
  "reg0 =
     \<lparr>params = defaultParams, sweepStart = 0, scanTime = 0,
      imuStart = IMUState_default, imuCur = IMUState_default, imuPositionShift = v3zero,
      imuIdx = 0, imuHistory = \<lparr>capacity = 200, items = []\<rparr>,
      laserCloud = [], scanIndices = [],
      cornerPointsSharp = [], cornerPointsLessSharp = [],
      surfacePointsFlat = [], surfacePointsLessFlat = [],
      regionCurvature = [], regionLabel = [], regionSortIndices = [],
      scanNeighborPicked = []\<rparr>"

text \<open>A rotation that leaves every vector as it is, standing in where no IMU data is used.\<close>

definition noRotation :: rotation where
  "noRotation v a b c = v"

text \<open>Input clouds of one and of two points in the horizontal plane of the sensor.\<close>

definition onePoint :: "PointXYZ list" where
  "onePoint = [\<lparr>in_x = 1, in_y = 0, in_z = 0\<rparr>]"

definition twoPoints :: "PointXYZ list" where
  "twoPoints = [\<lparr>in_x = 1, in_y = 0, in_z = 0\<rparr>, \<lparr>in_x = 1, in_y = 1, in_z = 0\<rparr>]"

text \<open>
  Two scans of five points on a ray, a tenth of a unit apart: one at range \<open>1\<close>, where the
  gaps are large relative to the range, and one at range \<open>100\<close>, where they are small.
\<close>

definition onRay :: "real \<Rightarrow> PointXYZI" where
  "onRay r = \<lparr>pt_x = r, pt_y = 0, pt_z = 0, intensity = 0\<rparr>"

definition nearScan :: "PointXYZI list" where
  "nearScan = [onRay 1, onRay 1.1, onRay 1.2, onRay 1.3, onRay 1.4]"

definition farScan :: "PointXYZI list" where
  "farScan = [onRay 100, onRay 100.1, onRay 100.2, onRay 100.3, onRay 100.4]"

text \<open>A registration state that holds the given cloud, with curvature region \<open>1\<close>.\<close>

definition regWith :: "PointXYZI list \<Rightarrow> ScanRegistration" where
  "regWith cloud = reg0\<lparr>params := defaultParams\<lparr>curvatureRegion := 1\<rparr>, laserCloud := cloud\<rparr>"


text \<open>
  Two scans of seven points on a ray, a tenth of a unit apart, whose fourth point lies
  \<open>0.2\<close> beside the ray: one at range \<open>1\<close> and one at range \<open>100\<close>.
\<close>

definition offRay :: "real \<Rightarrow> PointXYZI" where
  "offRay r = \<lparr>pt_x = r, pt_y = 0.2, pt_z = 0, intensity = 0\<rparr>"

definition nearBump :: "PointXYZI list" where
  "nearBump = [onRay 1, onRay 1.1, onRay 1.2, offRay 1.3, onRay 1.4, onRay 1.5, onRay 1.6]"

definition farBump :: "PointXYZI list" where
  "farBump = [onRay 100, onRay 100.1, onRay 100.2, offRay 100.3, onRay 100.4, onRay 100.5,
     onRay 100.6]"

text \<open>
  A registration state that holds the given cloud as a single scan, with curvature region
  \<open>1\<close> and one feature region per scan.
\<close>

definition regOne :: "PointXYZI list \<Rightarrow> ScanRegistration" where
  "regOne cloud =
     reg0\<lparr>params := defaultParams\<lparr>curvatureRegion := 1, nFeatureRegions := 1\<rparr>,
          laserCloud := cloud, scanIndices := [(0, length cloud - 1)]\<rparr>"

text \<open>A filter that keeps every point, standing in for a voxel grid with small leaves.\<close>

definition keepAll :: "real \<Rightarrow> PointXYZI list \<Rightarrow> PointXYZI list" where
  "keepAll leafSize cloud = cloud"

text \<open>
  A scan of seven points at range \<open>100\<close>, a tenth of a unit apart, whose second point lies
  \<open>0.1\<close> and whose fourth point lies \<open>0.15\<close> beside the ray, and a registration state that
  holds a cloud as a single scan with one feature region, curvature region \<open>1\<close> and the
  curvature threshold \<open>0.02\<close>.
\<close>

definition besideRay :: "real \<Rightarrow> real \<Rightarrow> PointXYZI" where
  "besideRay r y = \<lparr>pt_x = r, pt_y = y, pt_z = 0, intensity = 0\<rparr>"

definition twinBump :: "PointXYZI list" where
  "twinBump = [besideRay 100 0, besideRay 100.1 0.1, besideRay 100.2 0, besideRay 100.3 0.15,
     besideRay 100.4 0, besideRay 100.5 0, besideRay 100.6 0]"

definition regFine :: "PointXYZI list \<Rightarrow> ScanRegistration" where
  "regFine cloud =
     reg0\<lparr>params := defaultParams\<lparr>curvatureRegion := 1, nFeatureRegions := 1,
                                    surfaceCurvatureThreshold := 0.02\<rparr>,
          laserCloud := cloud, scanIndices := [(0, length cloud - 1)]\<rparr>"
section \<open>Ring mapping: results\<close>


lemma getRing_linear16:
  "getRingForAngle linear16 ang = c_int ((ang * 180 / pi + 15) / 2 + 1 / 2)"
  by (simp add: getRingForAngle_def linear16_def MultiScanMapper_new_def)

lemma discarded_linear16: "ringDiscarded linear16 r \<longleftrightarrow> 16 \<le> r \<or> r < 0"
  by (simp add: ringDiscarded_def getNumberOfScanRings_def linear16_def MultiScanMapper_new_def)






section \<open>IMU integration: results\<close>

lemma cb_last_push: "cb_last (cb_push b e) = e"
  by (simp add: cb_last_def cb_push_def)

lemma cb_size_push: "0 < cb_size (cb_push b e)"
  by (simp add: cb_size_def cb_push_def)

lemma handleIMU_last:
  assumes "cb_size h > 0"
  shows "velocity (cb_last (handleIMUMessage rot h m)) =
           v3add (velocity (cb_last h))
             (v3scale (rot (imuAcc m) (msg_roll m) (msg_pitch m) (msg_yaw m))
                (msg_stamp m - stamp (cb_last h)))"
    and "position (cb_last (handleIMUMessage rot h m)) =
           v3add (v3add (position (cb_last h))
                    (v3scale (velocity (cb_last h)) (msg_stamp m - stamp (cb_last h))))
             (v3scale (rot (imuAcc m) (msg_roll m) (msg_pitch m) (msg_yaw m))
                (0.5 * (msg_stamp m - stamp (cb_last h)) * (msg_stamp m - stamp (cb_last h))))"
  using assms
  by (simp_all add: handleIMUMessage_def Let_def cb_last_push v3add_def v3scale_def v3x_def
      v3y_def v3z_def)

lemma handleIMU_sample:
  "stamp (cb_last (handleIMUMessage rot h m)) = msg_stamp m"
  "roll (cb_last (handleIMUMessage rot h m)) = msg_roll m"
  "pitch (cb_last (handleIMUMessage rot h m)) = msg_pitch m"
  "yaw (cb_last (handleIMUMessage rot h m)) = msg_yaw m"
  "acceleration (cb_last (handleIMUMessage rot h m)) = imuAcc m"
  by (simp_all add: handleIMUMessage_def Let_def cb_last_push)

text \<open>
  C4.  The sample that \<open>handleIMUMessage\<close> pushes carries the time stamp, the roll, pitch
  and yaw of the message and its gravity-compensated acceleration.  When the history is not
  empty, with the elapsed time taken between the time stamps of the previous and of the
  pushed sample, the pushed sample has the previous sample's velocity plus acceleration
  times the elapsed time as its velocity, and the previous position plus previous velocity
  times the elapsed time plus one half of the acceleration times the squared elapsed time
  as its position, where the acceleration is the gravity-compensated one rotated by
  \<open>rotateZXY\<close> with the pushed sample's roll, pitch and yaw.  With a rotated acceleration
  of \<open>(0, 0, 1)\<close>, an elapsed time of \<open>0.1\<close> and zero previous velocity and position, the
  velocity is \<open>(0, 0, 0.1)\<close> and the position \<open>(0, 0, 0.005)\<close>.
\<close>

theorem imu_integration:
  assumes "cb_size h > 0"
  shows "let prev = cb_last h; new = cb_last (handleIMUMessage rot h m);
             dt = stamp new - stamp prev;
             acc = rot (imuAcc m) (roll new) (pitch new) (yaw new)
         in stamp new = msg_stamp m \<and> roll new = msg_roll m \<and> pitch new = msg_pitch m
          \<and> yaw new = msg_yaw m \<and> acceleration new = imuAcc m
          \<and> velocity new = v3add (velocity prev) (v3scale acc dt)
          \<and> position new = v3add (v3add (position prev) (v3scale (velocity prev) dt))
                               (v3scale acc (0.5 * dt * dt))
          \<and> (velocity prev = v3zero \<and> position prev = v3zero \<and> dt = 0.1 \<and> acc = (0, 0, 1)
               \<longrightarrow> velocity new = (0, 0, 0.1) \<and> position new = (0, 0, 0.005))"
proof -
  have ex: "v3add v3zero (v3scale (0, 0, 1) 0.1) = (0, 0, 0.1)"
    "v3add (v3add v3zero (v3scale v3zero 0.1)) (v3scale (0, 0, 1) (0.5 * 0.1 * 0.1))
       = (0, 0, 0.005)"
    by (simp_all add: v3add_def v3scale_def v3x_def v3y_def v3z_def v3zero_def)
  show ?thesis
    unfolding Let_def handleIMU_last [OF assms] handleIMU_sample
    using ex by (intro conjI impI refl) (elim conjE, simp only:)+
qed

text \<open>
  Two messages pushed into an empty history at zero attitude, at the times \<open>5\<close> and \<open>5.1\<close>.
\<close>

theorem imu_integration_witness:
  "cb_size (handleIMUMessage (\<lambda>v r p y. v) \<lparr>capacity = 200, items = []\<rparr> (still_msg 5)) > 0
   \<and> stamp (cb_last (handleIMUMessage (\<lambda>v r p y. v)
         (handleIMUMessage (\<lambda>v r p y. v) \<lparr>capacity = 200, items = []\<rparr> (still_msg 5))
         (still_msg 5.1))) = 5.1
   \<and> velocity (cb_last (handleIMUMessage (\<lambda>v r p y. v)
         (handleIMUMessage (\<lambda>v r p y. v) \<lparr>capacity = 200, items = []\<rparr> (still_msg 5))
         (still_msg 5.1))) = (0, 0, 0.1)
   \<and> position (cb_last (handleIMUMessage (\<lambda>v r p y. v)
         (handleIMUMessage (\<lambda>v r p y. v) \<lparr>capacity = 200, items = []\<rparr> (still_msg 5))
         (still_msg 5.1))) = (0, 0, 0.005)"
proof -
  let ?rot = "\<lambda>(v::Vector3) (r::real) (p::real) (y::real). v"
  let ?h1 = "handleIMUMessage ?rot \<lparr>capacity = 200, items = []\<rparr> (still_msg 5)"
  let ?new = "cb_last (handleIMUMessage ?rot ?h1 (still_msg 5.1))"
  have s: "cb_size ?h1 > 0"
    by (simp add: handleIMUMessage_def Let_def cb_size_push)
  have l: "cb_last ?h1 = IMUState_default\<lparr>stamp := 5, acceleration := (0, 0, 1)\<rparr>"
    by (simp add: handleIMUMessage_def Let_def cb_last_push cb_size_def still_msg_def imuAcc_def
        v3x_def v3y_def v3z_def IMUState_default_def)
  have a: "imuAcc (still_msg 5.1) = (0, 0, 1)"
    by (simp add: still_msg_def imuAcc_def v3x_def v3y_def v3z_def)
  note t = imu_integration [OF s, of ?rot "still_msg 5.1", unfolded Let_def l a]
  from t have st: "stamp ?new = 5.1" by (simp add: still_msg_def)
  from t have "velocity ?new = (0, 0, 0.1) \<and> position ?new = (0, 0, 0.005)"
    unfolding st
    by (simp add: IMUState_default_def v3zero_def v3add_def v3scale_def v3x_def v3y_def v3z_def)
  with s st show ?thesis by simp
qed

section \<open>IMU interpolation: results\<close>








section \<open>Segmentation of a sweep: auxiliary facts\<close>

lemma atan2_bounds: "- pi \<le> atan2 y x \<and> atan2 y x \<le> pi"
proof -
  have a: "- (pi / 2) < arctan (y / x)" "arctan (y / x) < pi / 2"
    using arctan_lbound arctan_ubound by auto
  have p: "0 < pi" by simp
  consider (pos) "0 < x" | (nn) "x < 0" "0 \<le> y" | (np) "x < 0" "y < 0" | (z) "x = 0"
    by linarith
  then show ?thesis
  proof cases
    case pos
    then have "atan2 y x = arctan (y / x)" by (simp add: atan2_def)
    with a p show ?thesis by linarith
  next
    case nn
    then have e: "atan2 y x = arctan (y / x) + pi" by (simp add: atan2_def)
    from nn have "y / x \<le> 0" by (simp add: divide_nonneg_neg)
    then have "arctan (y / x) \<le> 0" by (simp add: arctan_le_zero_iff)
    with a p e show ?thesis by linarith
  next
    case np
    then have e: "atan2 y x = arctan (y / x) - pi" by (simp add: atan2_def)
    from np have "0 < y / x" by (simp add: divide_neg_neg)
    then have "0 < arctan (y / x)" by (simp add: zero_less_arctan_iff)
    with a p e show ?thesis by linarith
  next
    case z
    then have "atan2 y x = pi / 2 \<or> atan2 y x = - pi / 2 \<or> atan2 y x = 0"
      by (simp add: atan2_def)
    with p show ?thesis by argo
  qed
qed

lemma adjustEndOri_bounds:
  assumes "- pi \<le> s" "s \<le> pi" "pi \<le> e0" "e0 \<le> 3 * pi"
  shows "pi \<le> adjustEndOri s e0 - s \<and> adjustEndOri s e0 - s \<le> 3 * pi"
  using assms pi_gt_zero unfolding adjustEndOri_def by (auto; linarith)




lemma setIMUTransformFor_keeps:
  assumes "setIMUTransformFor st rt = Inr st'"
  shows "params st' = params st \<and> imuHistory st' = imuHistory st
       \<and> laserCloud st' = laserCloud st \<and> scanIndices st' = scanIndices st
       \<and> scanTime st' = scanTime st"
  using assms
  by (auto simp: setIMUTransformFor_def Let_def split: sum.splits prod.splits)

lemma transformToStartIMU_intensity:
  "intensity (transformToStartIMU rz ry st p) = intensity p"
  by (simp add: transformToStartIMU_def setCoords_def Let_def)

lemma processPoint_cases:
  assumes pp: "processPoint rz ry m so eo p s = Inr s'"
  obtains (skip) "s' = s"
  | (keep) scanID point2 where
      "\<not> ringDiscarded m scanID"
      "intensity point2 = real_of_int scanID
          + scanPeriod (params (reg s))
            * (fst (unwrapOri so eo (halfPassed s) (- atan2 (in_y p) (in_x p))) - so) / (eo - so)"
      "laserCloudScans s' =
         (laserCloudScans s)[nat scanID := laserCloudScans s ! nat scanID @ [point2]]"
      "params (reg s') = params (reg s)"
      "laserCloud (reg s') = laserCloud (reg s)"
      "scanIndices (reg s') = scanIndices (reg s)"
proof -
  define point where "point = \<lparr>pt_x = in_y p, pt_y = in_z p, pt_z = in_x p, intensity = 0\<rparr>"
  define scanID where "scanID = getRingForAngle m (verticalAngle point)"
  define u where "u = unwrapOri so eo (halfPassed s) (- atan2 (pt_x point) (pt_z point))"
  define relTime where
    "relTime = scanPeriod (params (reg s)) * (fst u - so) / (eo - so)"
  define point1 where "point1 = point\<lparr>intensity := real_of_int scanID + relTime\<rparr>"
  define r where "r = (if hasIMUData (reg s)
                         then (case setIMUTransformFor (reg s) relTime of
                                 Inl e \<Rightarrow> Inl e
                               | Inr st \<Rightarrow>
                                   Inr (st, transformToStartIMU rz ry st point1))
                         else Inr (reg s, point1))"
  have unfolded: "processPoint rz ry m so eo p s =
     (if pt_x point * pt_x point + pt_y point * pt_y point + pt_z point * pt_z point < 0.0001
      then Inr s
      else if ringDiscarded m scanID then Inr s
      else case r of
             Inl e \<Rightarrow> Inl e
           | Inr (st, point2) \<Rightarrow>
               Inr \<lparr>halfPassed = snd u,
                    laserCloudScans =
                      (laserCloudScans s)[nat scanID := laserCloudScans s ! nat scanID @ [point2]],
                    reg = st\<rparr>)"
    unfolding processPoint_def point_def [symmetric] Let_def scanID_def [symmetric]
      r_def relTime_def point1_def u_def
    by (simp only: case_prod_unfold)
  have xz: "pt_x point = in_y p" "pt_z point = in_x p" by (simp_all add: point_def)
  show thesis
  proof (cases "pt_x point * pt_x point + pt_y point * pt_y point + pt_z point * pt_z point < 0.0001
                \<or> ringDiscarded m scanID")
    case True
    with pp unfolded have "s' = s" by (auto split: if_splits)
    then show thesis by (rule skip)
  next
    case False
    with pp unfolded have c: "(case r of
             Inl e \<Rightarrow> Inl e
           | Inr (st, point2) \<Rightarrow>
               Inr \<lparr>halfPassed = snd u,
                    laserCloudScans =
                      (laserCloudScans s)[nat scanID := laserCloudScans s ! nat scanID @ [point2]],
                    reg = st\<rparr>) = Inr s'"
      by (auto split: if_splits)
    then obtain st point2 where r: "r = Inr (st, point2)"
      and s': "s' = \<lparr>halfPassed = snd u,
                    laserCloudScans =
                      (laserCloudScans s)[nat scanID := laserCloudScans s ! nat scanID @ [point2]],
                    reg = st\<rparr>"
      by (auto split: sum.splits prod.splits)
    have k: "intensity point2 = intensity point1 \<and> params st = params (reg s)
         \<and> laserCloud st = laserCloud (reg s) \<and> scanIndices st = scanIndices (reg s)"
    proof (cases "hasIMUData (reg s)")
      case True
      with r obtain st0 where t: "setIMUTransformFor (reg s) relTime = Inr st0"
        and e: "st = st0" "point2 = transformToStartIMU rz ry st0 point1"
        unfolding r_def by (auto split: sum.splits)
      from setIMUTransformFor_keeps [OF t] e show ?thesis
        by (simp add: transformToStartIMU_intensity)
    next
      case False
      with r show ?thesis unfolding r_def by simp
    qed
    show thesis
    proof (rule keep [of scanID point2])
      show "\<not> ringDiscarded m scanID" using False by simp
      show "intensity point2 = real_of_int scanID
          + scanPeriod (params (reg s))
            * (fst (unwrapOri so eo (halfPassed s) (- atan2 (in_y p) (in_x p))) - so) / (eo - so)"
        using k by (simp add: point1_def relTime_def u_def xz)
      show "laserCloudScans s' =
         (laserCloudScans s)[nat scanID := laserCloudScans s ! nat scanID @ [point2]]"
        by (simp add: s')
      show "params (reg s') = params (reg s)" using k by (simp add: s')
      show "laserCloud (reg s') = laserCloud (reg s)" using k by (simp add: s')
      show "scanIndices (reg s') = scanIndices (reg s)" using k by (simp add: s')
    qed
  qed
qed






lemma reset_keeps:
  assumes "reset st t True = Inr st1"
  shows "params st1 = params st \<and> laserCloud st1 = [] \<and> scanIndices st1 = []"
proof -
  define r where "r = (if hasIMUData (st\<lparr>scanTime := t, imuIdx := 0\<rparr>)
               then (case interpolateIMUStateFor (scanTime (st\<lparr>scanTime := t, imuIdx := 0\<rparr>))
                            (items (imuHistory (st\<lparr>scanTime := t, imuIdx := 0\<rparr>)))
                            (imuIdx (st\<lparr>scanTime := t, imuIdx := 0\<rparr>)) 0 of
                       Inl e \<Rightarrow> Inl e
                     | Inr (idx, out) \<Rightarrow>
                         Inr (st\<lparr>scanTime := t, imuIdx := 0\<rparr>\<lparr>imuIdx := idx, imuStart := out\<rparr>))
               else Inr (st\<lparr>scanTime := t, imuIdx := 0\<rparr>))"
  have p: "params st2 = params st" if "r = Inr st2" for st2
    using that unfolding r_def by (auto split: if_splits sum.splits)
  from assms obtain st2 where r: "r = Inr st2"
    and e: "st1 = st2\<lparr>sweepStart := t, laserCloud := [], cornerPointsSharp := [],
                         cornerPointsLessSharp := [], surfacePointsFlat := [],
                         surfacePointsLessFlat := [], scanIndices := []\<rparr>"
    unfolding reset_def Let_def r_def [symmetric] by (auto split: sum.splits)
  from p [OF r] e show ?thesis by simp
qed

lemma segmentSweep_cases:
  assumes sw: "segmentSweep rz ry m st cloudIn t = Inr (scans, st')"
  obtains st1 so eo s where
    "reset st t True = Inr st1" "cloudIn \<noteq> []"
    "- pi \<le> so" "so \<le> pi" "pi \<le> eo - so" "eo - so \<le> 3 * pi"
    "processPoints rz ry m so eo cloudIn
       \<lparr>halfPassed = False, laserCloudScans = replicate (getNumberOfScanRings m) [],
        reg = st1\<rparr> = Inr s"
    "scans = laserCloudScans s"
    "laserCloud st' = fst (buildCloud scans (laserCloud (reg s), scanIndices (reg s), 0))"
    "scanIndices st' = fst (snd (buildCloud scans (laserCloud (reg s), scanIndices (reg s), 0)))"
    "params st' = params (reg s)"
proof -
  from sw obtain st1 where rs: "reset st t True = Inr st1"
    unfolding segmentSweep_def Let_def by (auto split: sum.splits)
  from sw rs obtain firstPoint where fp: "read_at cloudIn 0 = Inr firstPoint"
    unfolding segmentSweep_def Let_def by (auto split: sum.splits)
  then have ne: "cloudIn \<noteq> []" by (auto simp: read_at_def split: if_splits)
  from sw rs fp obtain lastPoint where
    lp: "read_at cloudIn (size_t_sub (length cloudIn) 1) = Inr lastPoint"
    unfolding segmentSweep_def Let_def by (auto split: sum.splits)
  define so where "so = - atan2 (in_y firstPoint) (in_x firstPoint)"
  define eo where "eo = adjustEndOri so (- atan2 (in_y lastPoint) (in_x lastPoint) + 2 * pi)"
  from sw rs fp lp obtain s where
    ps: "processPoints rz ry m so eo cloudIn
       \<lparr>halfPassed = False, laserCloudScans = replicate (getNumberOfScanRings m) [],
        reg = st1\<rparr> = Inr s"
    and res: "(case buildCloud (laserCloudScans s) (laserCloud (reg s), scanIndices (reg s), 0) of
          (cloud, indices, n) \<Rightarrow>
            Inr (laserCloudScans s, (reg s)\<lparr>laserCloud := cloud, scanIndices := indices\<rparr>))
        = (Inr (scans, st') :: error + (PointXYZI list list \<times> ScanRegistration))"
    unfolding segmentSweep_def Let_def so_def eo_def by (auto split: sum.splits)
  have sb: "- pi \<le> so" "so \<le> pi"
    using atan2_bounds [of "in_y firstPoint" "in_x firstPoint"] unfolding so_def by auto
  have "pi \<le> - atan2 (in_y lastPoint) (in_x lastPoint) + 2 * pi"
    "- atan2 (in_y lastPoint) (in_x lastPoint) + 2 * pi \<le> 3 * pi"
    using atan2_bounds [of "in_y lastPoint" "in_x lastPoint"] by auto
  from adjustEndOri_bounds [OF sb this]
  have eb: "pi \<le> eo - so" "eo - so \<le> 3 * pi" unfolding eo_def by auto
  from res have sc: "scans = laserCloudScans s" by (auto split: prod.splits)
  from res sc have
    "laserCloud st' = fst (buildCloud scans (laserCloud (reg s), scanIndices (reg s), 0))"
    "scanIndices st' = fst (snd (buildCloud scans (laserCloud (reg s), scanIndices (reg s), 0)))"
    "params st' = params (reg s)"
    by (auto split: prod.splits)
  with rs ne sb eb ps sc show thesis by (rule that)
qed


lemma ringStart_0: "ringStart scans 0 = 0"
  by (simp add: ringStart_def)

lemma ringStart_Cons: "ringStart (s # scans) (Suc i) = length s + ringStart scans i"
  by (simp add: ringStart_def)

lemma buildCloud_gen:
  "buildCloud scans (cloud, indices, n) =
     (cloud @ concat scans,
      indices @ map (\<lambda>i. (n + ringStart scans i,
                            if n + ringStart scans (Suc i) > 0
                            then n + ringStart scans (Suc i) - 1 else 0)) [0..<length scans],
      n + sum_list (map length scans))"
proof (induction scans arbitrary: cloud indices n)
  case Nil
  then show ?case by simp
next
  case (Cons s scans)
  show ?case
    by (simp add: Cons.IH Let_def map_upt_Suc ringStart_0 ringStart_Cons add.assoc
        del: upt_Suc)
qed

lemma ringStart_Suc:
  assumes "i < length scans"
  shows "ringStart scans (Suc i) = ringStart scans i + length (scans ! i)"
  using assms by (simp add: ringStart_def take_Suc_conv_app_nth)

lemma ringStart_mono:
  assumes "i \<le> j"
  shows "ringStart scans i \<le> ringStart scans j"
proof -
  from assms obtain k where j: "j = i + k" by (auto simp: le_iff_add)
  have "take (i + k) scans = take i scans @ take k (drop i scans)"
    by (simp add: take_add)
  then show ?thesis by (simp add: ringStart_def j)
qed

lemma ringStart_concat: "ringStart scans i = length (concat (take i scans))"
  by (simp add: ringStart_def length_concat)

lemma concat_slice:
  assumes "i < length scans"
  shows "map ((!) (concat scans)) [ringStart scans i ..< ringStart scans i + length (scans ! i)]
           = scans ! i"
proof -
  have "scans = take i scans @ scans ! i # drop (Suc i) scans"
    using assms by (simp add: id_take_nth_drop)
  then have c: "concat scans = concat (take i scans) @ scans ! i @ concat (drop (Suc i) scans)"
    by (metis concat.simps(2) concat_append)
  show ?thesis
    by (rule nth_equalityI) (simp_all add: c ringStart_concat nth_append)
qed

lemma ringStart_le_total:
  "ringStart scans i \<le> length (concat scans)"
proof -
  have "concat scans = concat (take i scans) @ concat (drop i scans)"
    by (metis append_take_drop_id concat_append)
  then show ?thesis by (simp add: ringStart_concat)
qed


lemma processPoint_struct:
  assumes pp: "processPoint rz ry m so eo p s = Inr s'"
  shows "length (laserCloudScans s') = length (laserCloudScans s)
       \<and> params (reg s') = params (reg s)
       \<and> laserCloud (reg s') = laserCloud (reg s)
       \<and> scanIndices (reg s') = scanIndices (reg s)"
  using pp by (cases rule: processPoint_cases) simp_all

lemma processPoints_struct:
  assumes "processPoints rz ry m so eo ps s = Inr s'"
  shows "length (laserCloudScans s') = length (laserCloudScans s)
       \<and> params (reg s') = params (reg s)
       \<and> laserCloud (reg s') = laserCloud (reg s)
       \<and> scanIndices (reg s') = scanIndices (reg s)"
  using assms
proof (induction ps arbitrary: s)
  case Nil
  then show ?case by simp
next
  case (Cons p ps)
  from Cons.prems obtain s1 where
    one: "processPoint rz ry m so eo p s = Inr s1"
    and rest: "processPoints rz ry m so eo ps s1 = Inr s'"
    by (auto split: sum.splits)
  from processPoint_struct [OF one] Cons.IH [OF rest] show ?case by simp
qed

lemma sweep_clouds:
  assumes sw: "segmentSweep rz ry m st cloudIn t = Inr (scans, st')"
  shows "length scans = getNumberOfScanRings m
     \<and> laserCloud st' = concat scans
     \<and> scanIndices st' =
           map (\<lambda>i. (ringStart scans i,
                      if ringStart scans (Suc i) > 0 then ringStart scans (Suc i) - 1 else 0))
             [0..<length scans]"
proof -
  from sw obtain st1 so eo s where
    rs: "reset st t True = Inr st1"
    and ps: "processPoints rz ry m so eo cloudIn
       \<lparr>halfPassed = False, laserCloudScans = replicate (getNumberOfScanRings m) [],
        reg = st1\<rparr> = Inr s"
    and sc: "scans = laserCloudScans s"
    and lc: "laserCloud st' = fst (buildCloud scans (laserCloud (reg s), scanIndices (reg s), 0))"
    and si: "scanIndices st' = fst (snd (buildCloud scans (laserCloud (reg s), scanIndices (reg s), 0)))"
    by (rule segmentSweep_cases)
  from reset_keeps [OF rs] processPoints_struct [OF ps]
  have k: "length (laserCloudScans s) = getNumberOfScanRings m"
    "laserCloud (reg s) = []" "scanIndices (reg s) = []" by simp_all
  show ?thesis
    unfolding lc si k buildCloud_gen using k(1) sc by simp
qed


subsection \<open>Evaluation on concrete sweeps\<close>

lemma reset_reg0: "reset reg0 0 True = Inr reg0"
  by (simp add: reset_def hasIMUData_def reg0_def cb_size_def)

lemma atan2_0_1: "atan2 0 1 = 0" by (simp add: atan2_def)
lemma atan2_1_1: "atan2 1 1 = pi / 4" by (simp add: atan2_def arctan_one)

lemma ring8: "getRingForAngle linear16 0 = 8"
  by (simp add: getRing_linear16 c_int_def)

lemma nodisc8: "\<not> ringDiscarded linear16 8"
  by (simp add: discarded_linear16)

lemma pp0: "processPoint noRotation noRotation linear16 0 e \<lparr>in_x = 1, in_y = 0, in_z = 0\<rparr>
    \<lparr>halfPassed = False, laserCloudScans = replicate 16 [], reg = reg0\<rparr>
  = Inr \<lparr>halfPassed = False,
       laserCloudScans = (replicate 16 [])[8 := [\<lparr>pt_x = 0, pt_y = 0, pt_z = 1, intensity = 8\<rparr>]],
       reg = reg0\<rparr>"
  by (simp add: processPoint_def verticalAngle_def ring8 nodisc8 atan2_0_1 unwrapOri_def
      Let_def hasIMUData_def cb_size_def reg0_def)


lemma rep16: "replicate 16 x = [x,x,x,x,x,x,x,x,x,x,x,x,x,x,x,x]"
  by (simp add: numeral_eq_Suc)

lemma rings16: "getNumberOfScanRings linear16 = 16"
  by (simp add: getNumberOfScanRings_def linear16_def MultiScanMapper_new_def)

lemma sweep_onePoint:
  "segmentSweep noRotation noRotation linear16 reg0 onePoint 0 =
     Inr ((replicate 16 [])[8 := [\<lparr>pt_x = 0, pt_y = 0, pt_z = 1, intensity = 8\<rparr>]],
          reg0\<lparr>laserCloud := [\<lparr>pt_x = 0, pt_y = 0, pt_z = 1, intensity = 8\<rparr>],
               scanIndices := [(0,0),(0,0),(0,0),(0,0),(0,0),(0,0),(0,0),(0,0),(0,0),
                               (1,0),(1,0),(1,0),(1,0),(1,0),(1,0),(1,0)]\<rparr>)"
proof -
  have b: "buildCloud ((replicate 16 [])[8 := [\<lparr>pt_x = 0, pt_y = 0, pt_z = 1, intensity = 8\<rparr>]])
            ([], [], 0)
      = ([\<lparr>pt_x = 0, pt_y = 0, pt_z = 1, intensity = 8\<rparr>],
         [(0,0),(0,0),(0,0),(0,0),(0,0),(0,0),(0,0),(0,0),(0,0),
          (1,0),(1,0),(1,0),(1,0),(1,0),(1,0),(1,0)], 1)"
    by (simp add: rep16 Let_def)
  have r: "laserCloud reg0 = []" "scanIndices reg0 = []" by (simp_all add: reg0_def)
  show ?thesis
    by (simp add: segmentSweep_def reset_reg0 onePoint_def read_at_def size_t_sub_def atan2_0_1
        adjustEndOri_def rings16 pp0 b r)
qed

lemma pp1: "processPoint noRotation noRotation linear16 0 (7 * pi / 4) \<lparr>in_x = 1, in_y = 1, in_z = 0\<rparr>
    \<lparr>halfPassed = False,
     laserCloudScans = (replicate 16 [])[8 := [\<lparr>pt_x = 0, pt_y = 0, pt_z = 1, intensity = 8\<rparr>]],
     reg = reg0\<rparr>
  = Inr \<lparr>halfPassed = False,
       laserCloudScans = (replicate 16 [])[8 := [\<lparr>pt_x = 0, pt_y = 0, pt_z = 1, intensity = 8\<rparr>,
                                               \<lparr>pt_x = 1, pt_y = 0, pt_z = 1, intensity = 559 / 70\<rparr>]],
       reg = reg0\<rparr>"
proof -
  have p: "scanPeriod (params reg0) = 1 / 10" "hasIMUData reg0 = False"
    by (simp_all add: reg0_def defaultParams_def hasIMUData_def cb_size_def)
  have c: "\<not> - (pi / 4) < 0 - pi / 2" "\<not> - (pi / 4) > 0 + pi * 3 / 2"
    "\<not> - (pi / 4) - 0 > pi"
    using pi_gt_zero by linarith+
  have u: "unwrapOri 0 (7 * pi / 4) False (- (pi / 4)) = (- (pi / 4), False)"
    unfolding unwrapOri_def Let_def using c by simp
  show ?thesis
    by (simp add: processPoint_def verticalAngle_def ring8 nodisc8 atan2_1_1 u
      Let_def p rep16)
qed

lemma sweep_twoPoints:
  "segmentSweep noRotation noRotation linear16 reg0 twoPoints 0 =
     Inr ((replicate 16 [])[8 := [\<lparr>pt_x = 0, pt_y = 0, pt_z = 1, intensity = 8\<rparr>,
                                  \<lparr>pt_x = 1, pt_y = 0, pt_z = 1, intensity = 559 / 70\<rparr>]],
          reg0\<lparr>laserCloud := [\<lparr>pt_x = 0, pt_y = 0, pt_z = 1, intensity = 8\<rparr>,
                              \<lparr>pt_x = 1, pt_y = 0, pt_z = 1, intensity = 559 / 70\<rparr>],
               scanIndices := [(0,0),(0,0),(0,0),(0,0),(0,0),(0,0),(0,0),(0,0),(0,1),
                               (2,1),(2,1),(2,1),(2,1),(2,1),(2,1),(2,1)]\<rparr>)"
proof -
  have b: "buildCloud ((replicate 16 [])[8 := [\<lparr>pt_x = 0, pt_y = 0, pt_z = 1, intensity = 8\<rparr>,
                                  \<lparr>pt_x = 1, pt_y = 0, pt_z = 1, intensity = 559 / 70\<rparr>]])
            ([], [], 0)
      = ([\<lparr>pt_x = 0, pt_y = 0, pt_z = 1, intensity = 8\<rparr>,
                                  \<lparr>pt_x = 1, pt_y = 0, pt_z = 1, intensity = 559 / 70\<rparr>],
         [(0,0),(0,0),(0,0),(0,0),(0,0),(0,0),(0,0),(0,0),(0,1),
          (2,1),(2,1),(2,1),(2,1),(2,1),(2,1),(2,1)], 2)"
    by (simp add: rep16 Let_def)
  have r: "laserCloud reg0 = []" "scanIndices reg0 = []" by (simp_all add: reg0_def)
  have c: "\<not> 7 * pi / 4 - 0 > 3 * pi" "\<not> 7 * pi / 4 - 0 < pi"
    using pi_gt_zero by linarith+
  have e: "adjustEndOri 0 (7 * pi / 4) = 7 * pi / 4"
    unfolding adjustEndOri_def using c by simp
  show ?thesis
    by (simp add: segmentSweep_def reset_reg0 twoPoints_def read_at_def size_t_sub_def atan2_0_1
        atan2_1_1 e rings16 pp0 pp1 b r Let_def)
qed

section \<open>Segmentation of a sweep: results\<close>




text \<open>
  C8.  The claim asks that every read of the input cloud is in bounds, also for the empty
  cloud.  The source reads \<open>laserCloudIn[0]\<close> and \<open>laserCloudIn[cloudSize - 1]\<close> before it
  looks at the size: on the empty cloud, whatever the state and the scan time, the first
  read is already outside the vector.
\<close>

theorem process_empty_cloud:
  "segmentSweep rotateZXY rotateYXZ scanMapper st [] t = Inl OutOfBounds"
proof (cases "reset st t True")
  case (Inl e)
  then show ?thesis by (cases e) (simp add: segmentSweep_def)
next
  case (Inr st1)
  then show ?thesis by (simp add: segmentSweep_def read_at_def)
qed

text \<open>
  C9, refuted as stated.  A sweep of one point, which falls into ring \<open>8\<close>: the empty ring
  \<open>0\<close> gets the range \<open>(0, 0)\<close>, and so does ring \<open>8\<close> with its single point at index \<open>0\<close>.
  The two ranges of these distinct rings cover the same index.
\<close>

theorem empty_ring_range_overlaps:
  "case segmentSweep noRotation noRotation linear16 reg0 onePoint 0 of
     Inl e \<Rightarrow> False
   | Inr (scans, st) \<Rightarrow>
       scans ! 0 = [] \<and> scans ! 8 \<noteq> []
       \<and> scanIndices st ! 0 = (0, 0) \<and> scanIndices st ! 8 = (0, 0)
       \<and> covered (scanIndices st ! 0) \<inter> covered (scanIndices st ! 8) = {0}"
  by (simp add: sweep_onePoint rep16 covered_def)

text \<open>
  C9, amended.  After the segmentation of a sweep there is one range per ring, in ring
  order, and the full-resolution cloud is the concatenation of the per-ring clouds.  The
  range of a non-empty ring starts at the number of points in the lower rings, is
  contiguous, lies inside the cloud and holds exactly the points of that ring in their
  order; the ranges of two non-empty rings are ordered by ring and cover disjoint sets of
  indices.  The range of an empty ring preceded by \<open>c\<close> points is \<open>(c, c - 1)\<close>, which covers
  no index when \<open>c > 0\<close> and is \<open>(0, 0)\<close> when \<open>c = 0\<close>.
\<close>

theorem scan_ranges:
  assumes "segmentSweep rotateZXY rotateYXZ scanMapper st laserCloudIn t = Inr (scans, st')"
  shows "length (scanIndices st') = length scans \<and> laserCloud st' = concat scans
       \<and> (\<forall>i < length scans. scans ! i \<noteq> [] \<longrightarrow>
             fst (scanIndices st' ! i) = ringStart scans i
           \<and> snd (scanIndices st' ! i) = ringStart scans i + length (scans ! i) - 1
           \<and> snd (scanIndices st' ! i) < length (laserCloud st')
           \<and> map ((!) (laserCloud st'))
                 [fst (scanIndices st' ! i) ..< Suc (snd (scanIndices st' ! i))] = scans ! i)
       \<and> (\<forall>i j. i < j \<and> j < length scans \<and> scans ! i \<noteq> [] \<and> scans ! j \<noteq> [] \<longrightarrow>
             snd (scanIndices st' ! i) < fst (scanIndices st' ! j)
           \<and> covered (scanIndices st' ! i) \<inter> covered (scanIndices st' ! j) = {})
       \<and> (\<forall>i < length scans. scans ! i = [] \<longrightarrow>
             scanIndices st' ! i = (ringStart scans i, ringStart scans i - 1))"
proof -
  from sweep_clouds [OF assms] have lc: "laserCloud st' = concat scans"
    and si: "scanIndices st' =
           map (\<lambda>i. (ringStart scans i,
                      if ringStart scans (Suc i) > 0 then ringStart scans (Suc i) - 1 else 0))
             [0..<length scans]"
    by simp_all
  have len: "length (scanIndices st') = length scans" by (simp add: si)
  have nth: "scanIndices st' ! i = (ringStart scans i,
                      if ringStart scans (Suc i) > 0 then ringStart scans (Suc i) - 1 else 0)"
    if "i < length scans" for i
    using that by (simp add: si)
  have full: "fst (scanIndices st' ! i) = ringStart scans i
           \<and> snd (scanIndices st' ! i) = ringStart scans i + length (scans ! i) - 1
           \<and> snd (scanIndices st' ! i) < length (laserCloud st')
           \<and> map ((!) (laserCloud st'))
                 [fst (scanIndices st' ! i) ..< Suc (snd (scanIndices st' ! i))] = scans ! i"
    if i: "i < length scans" and ne: "scans ! i \<noteq> []" for i
  proof -
    from ne have pos: "0 < length (scans ! i)" by simp
    have a: "fst (scanIndices st' ! i) = ringStart scans i" by (simp add: nth [OF i])
    have b: "snd (scanIndices st' ! i) = ringStart scans i + length (scans ! i) - 1"
      using pos by (simp add: nth [OF i] ringStart_Suc [OF i])
    have t: "ringStart scans i + length (scans ! i) \<le> length (concat scans)"
      using ringStart_le_total [of scans "Suc i"] ringStart_Suc [OF i] by simp
    have c: "snd (scanIndices st' ! i) < length (laserCloud st')"
      unfolding b lc using t pos by linarith
    from pos have "Suc (ringStart scans i + length (scans ! i) - 1)
        = ringStart scans i + length (scans ! i)" by simp
    with concat_slice [OF i]
    have d: "map ((!) (laserCloud st'))
                 [fst (scanIndices st' ! i) ..< Suc (snd (scanIndices st' ! i))] = scans ! i"
      unfolding a b lc by simp
    from a b c d show ?thesis by simp
  qed
  have apart: "snd (scanIndices st' ! i) < fst (scanIndices st' ! j)
           \<and> covered (scanIndices st' ! i) \<inter> covered (scanIndices st' ! j) = {}"
    if ij: "i < j" "j < length scans" and ne: "scans ! i \<noteq> []" "scans ! j \<noteq> []" for i j
  proof -
    from ij have i: "i < length scans" by simp
    from ne have pos: "0 < length (scans ! i)" by simp
    from full [OF i ne(1)] full [OF ij(2) ne(2)]
    have a: "snd (scanIndices st' ! i) = ringStart scans i + length (scans ! i) - 1"
      and b: "fst (scanIndices st' ! j) = ringStart scans j" by simp_all
    from ij have "ringStart scans (Suc i) \<le> ringStart scans j"
      by (intro ringStart_mono) simp
    then have "ringStart scans i + length (scans ! i) \<le> ringStart scans j"
      by (simp add: ringStart_Suc [OF i])
    then have lt: "snd (scanIndices st' ! i) < fst (scanIndices st' ! j)"
      unfolding a b using pos by linarith
    then have "covered (scanIndices st' ! i) \<inter> covered (scanIndices st' ! j) = {}"
      unfolding covered_def by auto
    with lt show ?thesis by simp
  qed
  have empty: "scanIndices st' ! i = (ringStart scans i, ringStart scans i - 1)"
    if i: "i < length scans" and e: "scans ! i = []" for i
    using e by (simp add: nth [OF i] ringStart_Suc [OF i])
  from len lc full apart empty show ?thesis by blast
qed

theorem scan_ranges_witness:
  "case segmentSweep noRotation noRotation linear16 reg0 twoPoints 0 of
     Inl e \<Rightarrow> False
   | Inr (scans, st) \<Rightarrow>
       8 < length scans \<and> scans ! 8 \<noteq> [] \<and> 9 < length scans \<and> scans ! 9 = []
       \<and> fst (scanIndices st ! 8) = ringStart scans 8
       \<and> snd (scanIndices st ! 8) = ringStart scans 8 + length (scans ! 8) - 1
       \<and> scanIndices st ! 9 = (ringStart scans 9, ringStart scans 9 - 1)"
proof -
  let ?scans = "(replicate 16 [])[8 := [\<lparr>pt_x = 0, pt_y = 0, pt_z = 1, intensity = 8\<rparr>,
                                  \<lparr>pt_x = 1, pt_y = 0, pt_z = 1, intensity = 559 / 70\<rparr>]]"
  have m: "8 < length ?scans" "?scans ! 8 \<noteq> []" "9 < length ?scans" "?scans ! 9 = []"
    by (simp_all add: rep16)
  from scan_ranges [OF sweep_twoPoints] m show ?thesis
    unfolding sweep_twoPoints by (simp only: sum.case prod.case) blast
qed

section \<open>Pre-pass marking of unreliable points: results\<close>

lemma fill_n_length: "length (fill_n v a n x) = length v"
  by (simp add: fill_n_def)

lemma fill_n_nth:
  "j < length v \<Longrightarrow> fill_n v a n x ! j = (if a \<le> j \<and> j < a + n then x else v ! j)"
  by (simp add: fill_n_def)

lemma occluded_exclusive: "occludedBefore cloud i \<Longrightarrow> \<not> occludedAfter cloud i"
  by (simp add: occludedBefore_def occludedAfter_def Let_def)

lemma scanStep_length: "length (scanStep cr cloud s picked i) = length picked"
  by (simp add: scanStep_def Let_def fill_n_length)

lemma scanStep_nth:
  assumes "j < length picked" and "s + cr \<le> i"
  shows "scanStep cr cloud s picked i ! j =
           (if occlusionMarks cr cloud s i j
               \<or> \<not> occludedBefore cloud i \<and> gapsExceed cloud i \<and> j = i - s
            then 1 else picked ! j)"
proof (cases "occludedBefore cloud i")
  case True
  from assms(2) have "i - s - cr + (cr + 1) = i - s + 1" by linarith
  then show ?thesis
    using assms True occluded_exclusive [OF True]
    by (auto simp: scanStep_def fill_n_nth occlusionMarks_def)
next
  case False
  then show ?thesis
    using assms
    by (auto simp: scanStep_def Let_def fill_n_nth fill_n_length occlusionMarks_def
        nth_list_update)
qed

lemma scanLoop_nth:
  assumes "j < length picked" and "\<forall>i \<in> set is. s + cr \<le> i"
  shows "length (foldl (scanStep cr cloud s) picked is) = length picked
       \<and> foldl (scanStep cr cloud s) picked is ! j =
           (if \<exists>i \<in> set is. occlusionMarks cr cloud s i j
                 \<or> \<not> occludedBefore cloud i \<and> gapsExceed cloud i \<and> j = i - s
            then 1 else picked ! j)"
  using assms
proof (induction "is" arbitrary: picked)
  case Nil
  then show ?case by simp
next
  case (Cons i "is")
  have l: "j < length (scanStep cr cloud s picked i)"
    using Cons.prems by (simp add: scanStep_length)
  from Cons.prems have r: "\<forall>i \<in> set is. s + cr \<le> i" and h: "s + cr \<le> i" by simp_all
  from Cons.IH [OF l r] scanStep_nth [OF Cons.prems(1) h, of cloud]
  show ?case by (auto simp: scanStep_length)
qed

lemma scanFlags_nth:
  assumes "j < endIdx - startIdx + 1"
  shows "scanFlags cr cloud startIdx endIdx ! j =
           (if occlusionMarked cr cloud startIdx endIdx j
               \<or> (\<exists>i \<in> {startIdx + cr ..< endIdx - cr}.
                     \<not> occludedBefore cloud i \<and> gapsExceed cloud i \<and> j = i - startIdx)
            then 1 else 0)"
proof -
  define n where "n = endIdx - startIdx + 1"
  have jn: "j < length (replicate n (0::int))" using assms by (simp add: n_def)
  have z: "replicate n (0::int) ! j = 0" using assms by (simp add: n_def del: replicate.simps)
  have r: "\<forall>i \<in> set [startIdx + cr ..< endIdx - cr]. startIdx + cr \<le> i" by simp
  from scanLoop_nth [OF jn r, of cloud] z
  show ?thesis
    unfolding scanFlags_def occlusionMarked_def n_def [symmetric] by auto
qed

lemma scanFlags_interior:
  assumes "startIdx + cr \<le> i" and "i < endIdx - cr"
  shows "(\<not> occludedBefore cloud i \<and> gapsExceed cloud i \<longrightarrow>
            scanFlags cr cloud startIdx endIdx ! (i - startIdx) = 1)
       \<and> (\<not> gapsExceed cloud i \<and> \<not> occlusionMarked cr cloud startIdx endIdx (i - startIdx) \<longrightarrow>
            scanFlags cr cloud startIdx endIdx ! (i - startIdx) = 0)
       \<and> (scanFlags cr cloud startIdx endIdx ! (i - startIdx) = 1 \<longleftrightarrow>
            \<not> occludedBefore cloud i \<and> gapsExceed cloud i
            \<or> occlusionMarked cr cloud startIdx endIdx (i - startIdx))"
proof -
  from assms have j: "i - startIdx < endIdx - startIdx + 1" by linarith
  have u: "(\<exists>i' \<in> {startIdx + cr ..< endIdx - cr}.
              \<not> occludedBefore cloud i' \<and> gapsExceed cloud i' \<and> i - startIdx = i' - startIdx)
           \<longleftrightarrow> \<not> occludedBefore cloud i \<and> gapsExceed cloud i"
  proof
    assume "\<exists>i' \<in> {startIdx + cr ..< endIdx - cr}.
              \<not> occludedBefore cloud i' \<and> gapsExceed cloud i' \<and> i - startIdx = i' - startIdx"
    then obtain i' where i': "startIdx + cr \<le> i'" "\<not> occludedBefore cloud i'"
      "gapsExceed cloud i'" "i - startIdx = i' - startIdx" by auto
    with assms have "i' = i" by linarith
    with i' show "\<not> occludedBefore cloud i \<and> gapsExceed cloud i" by simp
  next
    assume "\<not> occludedBefore cloud i \<and> gapsExceed cloud i"
    with assms show "\<exists>i' \<in> {startIdx + cr ..< endIdx - cr}.
              \<not> occludedBefore cloud i' \<and> gapsExceed cloud i' \<and> i - startIdx = i' - startIdx"
      by auto
  qed
  show ?thesis
    unfolding scanFlags_nth [OF j] u by auto
qed


lemma regWith_sel: "curvatureRegion (params (regWith cloud)) = 1" "laserCloud (regWith cloud) = cloud"
  by (simp_all add: regWith_def reg0_def)

lemma onRay_gaps:
  "calcSquaredDiff (onRay a) (onRay b) = (a - b) * (a - b)"
  "calcSquaredPointDistance (onRay a) = a * a"
  by (simp_all add: calcSquaredDiff_def calcSquaredPointDistance_def onRay_def)

lemma near_conds:
  "\<not> occludedBefore nearScan (Suc 0)" "\<not> occludedAfter nearScan (Suc 0)"
  "gapsExceed nearScan (Suc 0)"
  "\<not> occludedBefore nearScan 2" "\<not> occludedAfter nearScan 2" "gapsExceed nearScan 2"
  by (simp_all add: occludedBefore_def occludedAfter_def gapsExceed_def nearScan_def onRay_gaps
      Let_def)

lemma far_conds:
  "\<not> occludedBefore farScan (Suc 0)" "\<not> occludedAfter farScan (Suc 0)"
  "\<not> gapsExceed farScan (Suc 0)"
  "\<not> occludedBefore farScan 2" "\<not> occludedAfter farScan 2" "\<not> gapsExceed farScan 2"
  by (simp_all add: occludedBefore_def occludedAfter_def gapsExceed_def farScan_def onRay_gaps
      Let_def)

lemma upt13: "[0 + 1 ..< 4 - 1] = [1, 2::nat]"
  by (simp add: upt_rec)

lemma rep5: "replicate (4 - 0 + 1) (0::int) = [0, 0, 0, 0, 0]"
  by (simp add: numeral_eq_Suc)

lemma near_flags: "scanFlags 1 nearScan 0 4 = [0, 1, 1, 0, 0]"
  unfolding scanFlags_def upt13 rep5 by (simp add: scanStep_def near_conds)

lemma far_flags: "scanFlags 1 farScan 0 4 = [0, 0, 0, 0, 0]"
  unfolding scanFlags_def upt13 rep5 by (simp add: scanStep_def far_conds)

text \<open>
  C1, refuted as stated.  In the scan at range \<open>1\<close> both neighbour gaps of the interior
  points exceed \<open>0.0002\<close> times the squared range, and the pre-pass marks these points as
  picked; in the scan at range \<open>100\<close> both gaps are below that threshold, and the pre-pass
  marks nothing.  The rule marks the points with large gaps, not the ones with small gaps.
\<close>

theorem large_gaps_are_marked:
  "scanNeighborPicked (setScanBuffersFor (regWith nearScan) 0 4) = [0, 1, 1, 0, 0]
   \<and> calcSquaredDiff (nearScan ! 2) (nearScan ! 1)
        > 0.0002 * calcSquaredPointDistance (nearScan ! 1)
   \<and> calcSquaredDiff (nearScan ! 1) (nearScan ! 0)
        > 0.0002 * calcSquaredPointDistance (nearScan ! 1)
   \<and> scanNeighborPicked (setScanBuffersFor (regWith farScan) 0 4) = [0, 0, 0, 0, 0]
   \<and> calcSquaredDiff (farScan ! 2) (farScan ! 1)
        < 0.0002 * calcSquaredPointDistance (farScan ! 1)
   \<and> calcSquaredDiff (farScan ! 1) (farScan ! 0)
        < 0.0002 * calcSquaredPointDistance (farScan ! 1)"
  unfolding setScanBuffersFor_def regWith_sel near_flags far_flags
  by (simp add: nearScan_def farScan_def onRay_gaps)

text \<open>
  C1, amended.  For every interior index \<open>i\<close> of a scan that the loop of \<open>setScanBuffersFor\<close>
  visits (\<open>startIdx + curvatureRegion \<le> i < endIdx - curvatureRegion\<close>): if the occlusion
  rule does not end the iteration early and both neighbour gaps of the point exceed
  \<open>0.0002\<close> times its squared range, the point is marked as picked (flag \<open>1\<close>); if the gaps
  do not both exceed the threshold, the flag is \<open>0\<close> unless the occlusion rule of some
  iteration marks the point; and the flag is \<open>1\<close> exactly in these two cases.
\<close>

theorem unreliable_marks:
  assumes "startIdx + curvatureRegion (params st) \<le> i"
    and "i < endIdx - curvatureRegion (params st)"
  shows "(\<not> occludedBefore (laserCloud st) i \<and> gapsExceed (laserCloud st) i \<longrightarrow>
            scanNeighborPicked (setScanBuffersFor st startIdx endIdx) ! (i - startIdx) = 1)
       \<and> (\<not> gapsExceed (laserCloud st) i
          \<and> \<not> occlusionMarked (curvatureRegion (params st)) (laserCloud st) startIdx endIdx
                (i - startIdx) \<longrightarrow>
            scanNeighborPicked (setScanBuffersFor st startIdx endIdx) ! (i - startIdx) = 0)
       \<and> (scanNeighborPicked (setScanBuffersFor st startIdx endIdx) ! (i - startIdx) = 1 \<longleftrightarrow>
            \<not> occludedBefore (laserCloud st) i \<and> gapsExceed (laserCloud st) i
            \<or> occlusionMarked (curvatureRegion (params st)) (laserCloud st) startIdx endIdx
                 (i - startIdx))"
  using scanFlags_interior [OF assms, of "laserCloud st"]
  by (simp add: setScanBuffersFor_def)

theorem unreliable_marks_witness:
  "0 + curvatureRegion (params (regWith nearScan)) \<le> Suc 0
   \<and> Suc 0 < 4 - curvatureRegion (params (regWith nearScan))
   \<and> \<not> occludedBefore nearScan (Suc 0) \<and> gapsExceed nearScan (Suc 0)
   \<and> scanNeighborPicked (setScanBuffersFor (regWith nearScan) 0 4) ! (Suc 0 - 0) = 1"
proof -
  have h: "0 + curvatureRegion (params (regWith nearScan)) \<le> Suc 0"
    "Suc 0 < 4 - curvatureRegion (params (regWith nearScan))"
    by (simp_all add: regWith_sel)
  from unreliable_marks [OF h] near_conds
  have "scanNeighborPicked (setScanBuffersFor (regWith nearScan) 0 4) ! (Suc 0 - 0) = 1"
    by (simp add: regWith_sel)
  with h near_conds show ?thesis by blast
qed

section \<open>Corner selection: auxiliary facts\<close>

lemma onlyOnes_refl: "onlyOnes p p"
  by (simp add: onlyOnes_def)

lemma onlyOnes_trans: "onlyOnes p q \<Longrightarrow> onlyOnes q r \<Longrightarrow> onlyOnes p r"
  unfolding onlyOnes_def by metis

lemma onlyOnes_update: "onlyOnes p (p[k := 1])"
proof (cases "k < length p")
  case True
  then show ?thesis unfolding onlyOnes_def by (auto simp: nth_list_update)
next
  case False
  then have "p[k := 1] = p" by (intro list_update_beyond) simp
  then show ?thesis by (simp add: onlyOnes_refl)
qed

lemma onlyOnes_nonzero: "onlyOnes p p' \<Longrightarrow> p ! j \<noteq> 0 \<Longrightarrow> p' ! j \<noteq> 0"
  unfolding onlyOnes_def by (metis zero_neq_one)

lemma onlyOnes_one: "onlyOnes p p' \<Longrightarrow> p ! j = 1 \<Longrightarrow> p' ! j = 1"
  unfolding onlyOnes_def by metis

lemma onlyOnes_length: "onlyOnes p p' \<Longrightarrow> length p' = length p"
  by (simp add: onlyOnes_def)

lemma markForward_onlyOnes: "onlyOnes picked (markForward cloud c s picked i n)"
proof (induction n arbitrary: picked i)
  case 0
  then show ?case by (simp add: onlyOnes_refl)
next
  case (Suc n)
  show ?case
    using onlyOnes_trans [OF onlyOnes_update Suc.IH, of picked "s + i" "i + 1"]
    by (simp add: onlyOnes_refl)
qed

lemma markBackward_onlyOnes: "onlyOnes picked (markBackward cloud c s picked i n)"
proof (induction n arbitrary: picked i)
  case 0
  then show ?case by (simp add: onlyOnes_refl)
next
  case (Suc n)
  show ?case
    using onlyOnes_trans [OF onlyOnes_update Suc.IH, of picked "s - i" "i + 1"]
    by (simp add: onlyOnes_refl)
qed

lemma markAsPicked_frame:
  "params (markAsPicked st c s) = params st"
  "laserCloud (markAsPicked st c s) = laserCloud st"
  "regionSortIndices (markAsPicked st c s) = regionSortIndices st"
  "regionCurvature (markAsPicked st c s) = regionCurvature st"
  "regionLabel (markAsPicked st c s) = regionLabel st"
  "cornerPointsSharp (markAsPicked st c s) = cornerPointsSharp st"
  "cornerPointsLessSharp (markAsPicked st c s) = cornerPointsLessSharp st"
  "surfacePointsFlat (markAsPicked st c s) = surfacePointsFlat st"
  "surfacePointsLessFlat (markAsPicked st c s) = surfacePointsLessFlat st"
  by (simp_all add: markAsPicked_def Let_def)

lemma markAsPicked_flags:
  "onlyOnes (scanNeighborPicked st) (scanNeighborPicked (markAsPicked st c s))"
  "s < length (scanNeighborPicked st) \<Longrightarrow> scanNeighborPicked (markAsPicked st c s) ! s = 1"
proof -
  let ?p0 = "(scanNeighborPicked st)[s := 1]"
  let ?p1 = "markForward (laserCloud st) c s ?p0 1 (curvatureRegion (params st))"
  let ?p2 = "markBackward (laserCloud st) c s ?p1 1 (curvatureRegion (params st))"
  have e: "scanNeighborPicked (markAsPicked st c s) = ?p2"
    by (simp add: markAsPicked_def Let_def)
  have o: "onlyOnes ?p0 ?p2"
    by (rule onlyOnes_trans [OF markForward_onlyOnes markBackward_onlyOnes])
  show "onlyOnes (scanNeighborPicked st) (scanNeighborPicked (markAsPicked st c s))"
    unfolding e by (rule onlyOnes_trans [OF onlyOnes_update o])
  show "scanNeighborPicked (markAsPicked st c s) ! s = 1" if "s < length (scanNeighborPicked st)"
  proof -
    from that have "?p0 ! s = 1" by simp
    from onlyOnes_one [OF o this] show ?thesis unfolding e .
  qed
qed

lemma selectCorner_frame:
  "params (selectCorner ss sp st idx n) = params st"
  "laserCloud (selectCorner ss sp st idx n) = laserCloud st"
  "regionSortIndices (selectCorner ss sp st idx n) = regionSortIndices st"
  "regionCurvature (selectCorner ss sp st idx n) = regionCurvature st"
  "surfacePointsFlat (selectCorner ss sp st idx n) = surfacePointsFlat st"
  "surfacePointsLessFlat (selectCorner ss sp st idx n) = surfacePointsLessFlat st"
  "cornerPointsLessSharp (selectCorner ss sp st idx n) = cornerPointsLessSharp st @ [laserCloud st ! idx]"
  "cornerPointsSharp (selectCorner ss sp st idx n) =
     cornerPointsSharp st @ (if n \<le> maxCornerSharp (params st) then [laserCloud st ! idx] else [])"
  "regionLabel (selectCorner ss sp st idx n) =
     (regionLabel st)[idx - sp := if n \<le> maxCornerSharp (params st) then CORNER_SHARP
                                  else CORNER_LESS_SHARP]"
  by (simp_all add: selectCorner_def Let_def markAsPicked_frame)

lemma selectCorner_flags:
  "onlyOnes (scanNeighborPicked st) (scanNeighborPicked (selectCorner ss sp st idx n))"
  "idx - ss < length (scanNeighborPicked st)
     \<Longrightarrow> scanNeighborPicked (selectCorner ss sp st idx n) ! (idx - ss) = 1"
proof -
  obtain st2 where e: "selectCorner ss sp st idx n = markAsPicked st2 idx (idx - ss)"
    and f: "scanNeighborPicked st2 = scanNeighborPicked st"
    by (simp add: selectCorner_def Let_def)
  show "onlyOnes (scanNeighborPicked st) (scanNeighborPicked (selectCorner ss sp st idx n))"
    using markAsPicked_flags(1) [of st2 idx "idx - ss"] by (simp add: e f)
  show "scanNeighborPicked (selectCorner ss sp st idx n) ! (idx - ss) = 1"
    if "idx - ss < length (scanNeighborPicked st)"
    using markAsPicked_flags(2) [of "idx - ss" st2 idx] that by (simp add: e f)
qed


lemma corner_step_cases:
  obtains (stop) "\<not> n < maxCornerLessSharp (params st)"
      "cornerLoop ss sp (Suc k) st n = (st, n)"
      "cornerPicks ss sp (Suc k) st n = []"
  | (skip) "n < maxCornerLessSharp (params st)"
      "\<not> cornerCandidate ss sp st (regionSortIndices st ! k)"
      "cornerLoop ss sp (Suc k) st n = cornerLoop ss sp k st n"
      "cornerPicks ss sp (Suc k) st n = cornerPicks ss sp k st n"
  | (pick) "n < maxCornerLessSharp (params st)"
      "cornerCandidate ss sp st (regionSortIndices st ! k)"
      "cornerLoop ss sp (Suc k) st n =
         cornerLoop ss sp k (selectCorner ss sp st (regionSortIndices st ! k) (n + 1)) (n + 1)"
      "cornerPicks ss sp (Suc k) st n =
         regionSortIndices st ! k
           # cornerPicks ss sp k (selectCorner ss sp st (regionSortIndices st ! k) (n + 1)) (n + 1)"
proof (cases "n < maxCornerLessSharp (params st)")
  case False
  then show ?thesis by (intro stop) simp_all
next
  case True
  show ?thesis
  proof (cases "cornerCandidate ss sp st (regionSortIndices st ! k)")
    case c: True
    with True show ?thesis by (intro pick) (simp_all add: Let_def)
  next
    case c: False
    with True show ?thesis by (intro skip) (simp_all add: Let_def)
  qed
qed

lemma cornerLoop_frame:
  "params (fst (cornerLoop ss sp k st n)) = params st
   \<and> laserCloud (fst (cornerLoop ss sp k st n)) = laserCloud st
   \<and> regionSortIndices (fst (cornerLoop ss sp k st n)) = regionSortIndices st
   \<and> regionCurvature (fst (cornerLoop ss sp k st n)) = regionCurvature st
   \<and> surfacePointsFlat (fst (cornerLoop ss sp k st n)) = surfacePointsFlat st
   \<and> surfacePointsLessFlat (fst (cornerLoop ss sp k st n)) = surfacePointsLessFlat st
   \<and> length (regionLabel (fst (cornerLoop ss sp k st n))) = length (regionLabel st)
   \<and> onlyOnes (scanNeighborPicked st) (scanNeighborPicked (fst (cornerLoop ss sp k st n)))"
proof (induction k arbitrary: st n)
  case 0
  then show ?case by (simp add: onlyOnes_refl)
next
  case (Suc k)
  let ?idx = "regionSortIndices st ! k"
  let ?st1 = "selectCorner ss sp st ?idx (n + 1)"
  show ?case
  proof (cases rule: corner_step_cases [of n st ss sp k])
    case stop
    then show ?thesis by (simp add: onlyOnes_refl)
  next
    case skip
    with Suc.IH [of st n] show ?thesis by simp
  next
    case pick
    from Suc.IH [of ?st1 "n + 1"]
      onlyOnes_trans [OF selectCorner_flags(1) [of st ss sp ?idx "n + 1"]]
    show ?thesis unfolding pick(3) by (simp add: selectCorner_frame)
  qed
qed

lemma cornerLoop_counter:
  "snd (cornerLoop ss sp k st n) = n + int (length (cornerPicks ss sp k st n))
   \<and> n + int (length (cornerPicks ss sp k st n)) \<le> max n (maxCornerLessSharp (params st))"
proof (induction k arbitrary: st n)
  case 0
  then show ?case by simp
next
  case (Suc k)
  let ?idx = "regionSortIndices st ! k"
  let ?st1 = "selectCorner ss sp st ?idx (n + 1)"
  show ?case
  proof (cases rule: corner_step_cases [of n st ss sp k])
    case stop
    then show ?thesis by simp
  next
    case skip
    with Suc.IH [of st n] show ?thesis by simp
  next
    case pick
    with Suc.IH [of ?st1 "n + 1"] show ?thesis by (simp add: selectCorner_frame)
  qed
qed

lemma cornerLoop_clouds:
  "cornerPointsLessSharp (fst (cornerLoop ss sp k st n)) =
     cornerPointsLessSharp st @ map ((!) (laserCloud st)) (cornerPicks ss sp k st n)
   \<and> cornerPointsSharp (fst (cornerLoop ss sp k st n)) =
     cornerPointsSharp st
       @ map ((!) (laserCloud st))
           (take (nat (maxCornerSharp (params st) - n)) (cornerPicks ss sp k st n))"
proof (induction k arbitrary: st n)
  case 0
  then show ?case by simp
next
  case (Suc k)
  let ?idx = "regionSortIndices st ! k"
  let ?st1 = "selectCorner ss sp st ?idx (n + 1)"
  show ?case
  proof (cases rule: corner_step_cases [of n st ss sp k])
    case stop
    then show ?thesis by simp
  next
    case skip
    with Suc.IH [of st n] show ?thesis by simp
  next
    case pick
    show ?thesis
    proof (cases "n + 1 \<le> maxCornerSharp (params st)")
      case True
      then have "nat (maxCornerSharp (params st) - n)
                   = Suc (nat (maxCornerSharp (params st) - (n + 1)))" by linarith
      with Suc.IH [of ?st1 "n + 1"] True show ?thesis
        unfolding pick(3,4) by (simp add: selectCorner_frame)
    next
      case False
      then have "nat (maxCornerSharp (params st) - n) = 0"
        "nat (maxCornerSharp (params st) - (n + 1)) = 0" by linarith+
      with Suc.IH [of ?st1 "n + 1"] False show ?thesis
        unfolding pick(3,4) by (simp add: selectCorner_frame)
    qed
  qed
qed


lemma candidate_back:
  assumes "onlyOnes (scanNeighborPicked st) (scanNeighborPicked st1)"
    and "regionCurvature st1 = regionCurvature st" and "params st1 = params st"
    and "cornerCandidate ss sp st1 idx"
  shows "cornerCandidate ss sp st idx"
  using assms onlyOnes_nonzero [OF assms(1), of "idx - ss"]
  unfolding cornerCandidate_def by auto

lemma cornerPicks_candidates:
  "\<forall>idx \<in> set (cornerPicks ss sp k st n). cornerCandidate ss sp st idx"
proof (induction k arbitrary: st n)
  case 0
  then show ?case by simp
next
  case (Suc k)
  let ?idx = "regionSortIndices st ! k"
  let ?st1 = "selectCorner ss sp st ?idx (n + 1)"
  show ?case
  proof (cases rule: corner_step_cases [of n st ss sp k])
    case stop
    then show ?thesis by simp
  next
    case skip
    with Suc.IH [of st n] show ?thesis by simp
  next
    case pick
    have "cornerCandidate ss sp st idx"
      if "idx \<in> set (cornerPicks ss sp k ?st1 (n + 1))" for idx
    proof -
      from Suc.IH [of ?st1 "n + 1"] that have "cornerCandidate ss sp ?st1 idx" by simp
      then show ?thesis
        by (rule candidate_back [OF selectCorner_flags(1) selectCorner_frame(4)
              selectCorner_frame(1)])
    qed
    with pick show ?thesis by simp
  qed
qed

lemma cornerPicks_order:
  assumes "k \<le> length (regionSortIndices st)"
  shows "subseq (cornerPicks ss sp k st n) (rev (take k (regionSortIndices st)))"
  using assms
proof (induction k arbitrary: st n)
  case 0
  then show ?case by simp
next
  case (Suc k)
  let ?idx = "regionSortIndices st ! k"
  let ?st1 = "selectCorner ss sp st ?idx (n + 1)"
  from Suc.prems have kl: "k < length (regionSortIndices st)" by simp
  then have t: "rev (take (Suc k) (regionSortIndices st))
                  = ?idx # rev (take k (regionSortIndices st))"
    by (simp add: take_Suc_conv_app_nth)
  show ?case
  proof (cases rule: corner_step_cases [of n st ss sp k])
    case stop
    then show ?thesis by simp
  next
    case skip
    from Suc.IH [of st n] kl have "subseq (cornerPicks ss sp k st n)
        (rev (take k (regionSortIndices st)))" by simp
    then show ?thesis unfolding t skip(4) by (rule list_emb_Cons)
  next
    case pick
    from Suc.IH [of ?st1 "n + 1"] kl
    have "subseq (cornerPicks ss sp k ?st1 (n + 1)) (rev (take k (regionSortIndices st)))"
      by (simp add: selectCorner_frame)
    then show ?thesis unfolding t pick(4) by simp
  qed
qed

lemma cornerPicks_subset:
  assumes "k \<le> length (regionSortIndices st)"
  shows "set (cornerPicks ss sp k st n) \<subseteq> set (take k (regionSortIndices st))"
proof
  fix x
  assume "x \<in> set (cornerPicks ss sp k st n)"
  with cornerPicks_order [OF assms, of ss sp n]
  obtain y where "y \<in> set (rev (take k (regionSortIndices st)))" "x = y"
    by (rule list_emb_set)
  then show "x \<in> set (take k (regionSortIndices st))" by simp
qed

lemma cornerPicks_distinct:
  assumes "k \<le> length (regionSortIndices st)"
    and "\<forall>idx \<in> set (take k (regionSortIndices st)). idx - ss < length (scanNeighborPicked st)"
    and "\<forall>idx \<in> set (take k (regionSortIndices st)). ss \<le> idx"
  shows "distinct (cornerPicks ss sp k st n)"
  using assms
proof (induction k arbitrary: st n)
  case 0
  then show ?case by simp
next
  case (Suc k)
  let ?idx = "regionSortIndices st ! k"
  let ?st1 = "selectCorner ss sp st ?idx (n + 1)"
  from Suc.prems have kl: "k < length (regionSortIndices st)" by simp
  then have t: "take (Suc k) (regionSortIndices st) = take k (regionSortIndices st) @ [?idx]"
    by (simp add: take_Suc_conv_app_nth)
  from Suc.prems(2,3) have
    b: "\<forall>idx \<in> set (take k (regionSortIndices st)). idx - ss < length (scanNeighborPicked st)"
    and c: "\<forall>idx \<in> set (take k (regionSortIndices st)). ss \<le> idx"
    and bi: "?idx - ss < length (scanNeighborPicked st)" and ci: "ss \<le> ?idx"
    unfolding t by simp_all
  show ?case
  proof (cases rule: corner_step_cases [of n st ss sp k])
    case stop
    then show ?thesis by simp
  next
    case skip
    with Suc.IH [of st n] kl b c show ?thesis by simp
  next
    case pick
    have l1: "length (scanNeighborPicked ?st1) = length (scanNeighborPicked st)"
      using selectCorner_flags(1) [of st ss sp ?idx "n + 1"] by (rule onlyOnes_length)
    from Suc.IH [of ?st1 "n + 1"] kl b c l1
    have d: "distinct (cornerPicks ss sp k ?st1 (n + 1))" by (simp add: selectCorner_frame)
    have "?idx \<notin> set (cornerPicks ss sp k ?st1 (n + 1))"
    proof
      assume "?idx \<in> set (cornerPicks ss sp k ?st1 (n + 1))"
      with cornerPicks_candidates [of ss sp k ?st1 "n + 1"]
      have "cornerCandidate ss sp ?st1 ?idx" by simp
      then have "scanNeighborPicked ?st1 ! (?idx - ss) = 0" by (simp add: cornerCandidate_def)
      with selectCorner_flags(2) [OF bi, of sp "n + 1"] show False by simp
    qed
    with d show ?thesis unfolding pick(4) by simp
  qed
qed

lemma cornerLoop_picked:
  assumes "k \<le> length (regionSortIndices st)"
    and "\<forall>idx \<in> set (take k (regionSortIndices st)). idx - ss < length (scanNeighborPicked st)"
  shows "\<forall>idx \<in> set (cornerPicks ss sp k st n).
           scanNeighborPicked (fst (cornerLoop ss sp k st n)) ! (idx - ss) = 1"
  using assms
proof (induction k arbitrary: st n)
  case 0
  then show ?case by simp
next
  case (Suc k)
  let ?idx = "regionSortIndices st ! k"
  let ?st1 = "selectCorner ss sp st ?idx (n + 1)"
  from Suc.prems have kl: "k < length (regionSortIndices st)" by simp
  then have t: "take (Suc k) (regionSortIndices st) = take k (regionSortIndices st) @ [?idx]"
    by (simp add: take_Suc_conv_app_nth)
  from Suc.prems(2) have
    b: "\<forall>idx \<in> set (take k (regionSortIndices st)). idx - ss < length (scanNeighborPicked st)"
    and bi: "?idx - ss < length (scanNeighborPicked st)"
    unfolding t by simp_all
  show ?case
  proof (cases rule: corner_step_cases [of n st ss sp k])
    case stop
    then show ?thesis by simp
  next
    case skip
    with Suc.IH [of st n] kl b show ?thesis by simp
  next
    case pick
    have l1: "length (scanNeighborPicked ?st1) = length (scanNeighborPicked st)"
      using selectCorner_flags(1) [of st ss sp ?idx "n + 1"] by (rule onlyOnes_length)
    from Suc.IH [of ?st1 "n + 1"] kl b l1
    have r: "\<forall>idx \<in> set (cornerPicks ss sp k ?st1 (n + 1)).
           scanNeighborPicked (fst (cornerLoop ss sp k ?st1 (n + 1))) ! (idx - ss) = 1"
      by (simp add: selectCorner_frame)
    from cornerLoop_frame [of ss sp k ?st1 "n + 1"]
    have "onlyOnes (scanNeighborPicked ?st1)
            (scanNeighborPicked (fst (cornerLoop ss sp k ?st1 (n + 1))))" by simp
    from onlyOnes_one [OF this selectCorner_flags(2) [OF bi]]
    have "scanNeighborPicked (fst (cornerLoop ss sp k ?st1 (n + 1))) ! (?idx - ss) = 1" .
    with r show ?thesis unfolding pick(3,4) by simp
  qed
qed


lemma pick_not_again:
  assumes "idx - ss < length (scanNeighborPicked st)"
  shows "idx \<notin> set (cornerPicks ss sp k (selectCorner ss sp st idx n1) n2)"
proof
  assume "idx \<in> set (cornerPicks ss sp k (selectCorner ss sp st idx n1) n2)"
  with cornerPicks_candidates [of ss sp k "selectCorner ss sp st idx n1" n2]
  have "cornerCandidate ss sp (selectCorner ss sp st idx n1) idx" by simp
  then have "scanNeighborPicked (selectCorner ss sp st idx n1) ! (idx - ss) = 0"
    by (simp add: cornerCandidate_def)
  with selectCorner_flags(2) [OF assms, of sp n1] show False by simp
qed

lemma cornerLoop_labels:
  assumes "k \<le> length (regionSortIndices st)"
    and "\<forall>idx \<in> set (take k (regionSortIndices st)). idx - ss < length (scanNeighborPicked st)"
    and "\<forall>idx \<in> set (take k (regionSortIndices st)). sp \<le> idx"
    and "r < length (regionLabel st)"
  shows "regionLabel (fst (cornerLoop ss sp k st n)) ! r =
           (if r \<in> (\<lambda>i. i - sp) ` set (take (nat (maxCornerSharp (params st) - n))
                                          (cornerPicks ss sp k st n))
            then CORNER_SHARP
            else if r \<in> (\<lambda>i. i - sp) ` set (drop (nat (maxCornerSharp (params st) - n))
                                               (cornerPicks ss sp k st n))
            then CORNER_LESS_SHARP
            else regionLabel st ! r)"
  using assms
proof (induction k arbitrary: st n)
  case 0
  then show ?case by simp
next
  case (Suc k)
  let ?idx = "regionSortIndices st ! k"
  let ?st1 = "selectCorner ss sp st ?idx (n + 1)"
  let ?S1 = "cornerPicks ss sp k ?st1 (n + 1)"
  let ?m = "nat (maxCornerSharp (params st) - n)"
  let ?m1 = "nat (maxCornerSharp (params st) - (n + 1))"
  from Suc.prems have kl: "k < length (regionSortIndices st)" by simp
  then have t: "take (Suc k) (regionSortIndices st) = take k (regionSortIndices st) @ [?idx]"
    by (simp add: take_Suc_conv_app_nth)
  from Suc.prems(2,3) have
    b: "\<forall>idx \<in> set (take k (regionSortIndices st)). idx - ss < length (scanNeighborPicked st)"
    and c: "\<forall>idx \<in> set (take k (regionSortIndices st)). sp \<le> idx"
    and bi: "?idx - ss < length (scanNeighborPicked st)" and ci: "sp \<le> ?idx"
    unfolding t by simp_all
  show ?case
  proof (cases rule: corner_step_cases [of n st ss sp k])
    case stop
    then show ?thesis by simp
  next
    case skip
    with Suc.IH [of st n] kl b c Suc.prems(4) show ?thesis by simp
  next
    case pick
    have l1: "length (scanNeighborPicked ?st1) = length (scanNeighborPicked st)"
      using selectCorner_flags(1) [of st ss sp ?idx "n + 1"] by (rule onlyOnes_length)
    have ih: "regionLabel (fst (cornerLoop ss sp k ?st1 (n + 1))) ! r =
           (if r \<in> (\<lambda>i. i - sp) ` set (take ?m1 ?S1) then CORNER_SHARP
            else if r \<in> (\<lambda>i. i - sp) ` set (drop ?m1 ?S1) then CORNER_LESS_SHARP
            else regionLabel ?st1 ! r)"
      using Suc.IH [of ?st1 "n + 1"] kl b c l1 Suc.prems(4) by (simp add: selectCorner_frame)
    have sub: "set ?S1 \<subseteq> set (take k (regionSortIndices st))"
      using cornerPicks_subset [of k ?st1 ss sp "n + 1"] kl by (simp add: selectCorner_frame)
    have notin: "?idx - sp \<notin> (\<lambda>i. i - sp) ` set ?S1"
    proof
      assume "?idx - sp \<in> (\<lambda>i. i - sp) ` set ?S1"
      then obtain i where i: "i \<in> set ?S1" "?idx - sp = i - sp" by auto
      with sub c have "sp \<le> i" by auto
      with i(2) ci have "i = ?idx" by linarith
      with i(1) pick_not_again [OF bi, of sp k "n + 1" "n + 1"] show False by simp
    qed
    then have notin': "?idx - sp \<notin> (\<lambda>i. i - sp) ` set (take ?m1 ?S1)"
      "?idx - sp \<notin> (\<lambda>i. i - sp) ` set (drop ?m1 ?S1)"
      by (auto dest: in_set_takeD in_set_dropD)
    show ?thesis
    proof (cases "n + 1 \<le> maxCornerSharp (params st)")
      case True
      then have m: "?m = Suc ?m1" by linarith
      have lab: "regionLabel ?st1 ! r = (if r = ?idx - sp then CORNER_SHARP else regionLabel st ! r)"
        using True Suc.prems(4) by (simp add: selectCorner_frame nth_list_update)
      show ?thesis
        unfolding pick(3,4) m using ih lab notin' by auto
    next
      case False
      then have m: "?m = 0" "?m1 = 0" by linarith+
      have lab: "regionLabel ?st1 ! r
                   = (if r = ?idx - sp then CORNER_LESS_SHARP else regionLabel st ! r)"
        using False Suc.prems(4) by (simp add: selectCorner_frame nth_list_update)
      show ?thesis
        unfolding pick(3,4) m using ih lab notin' unfolding m by auto
    qed
  qed
qed


lemma cornerPicks_none:
  assumes "k \<le> length (regionSortIndices st)"
    and "\<forall>idx \<in> set (take k (regionSortIndices st)).
           \<not> regionCurvature st ! (idx - sp) > surfaceCurvatureThreshold (params st)"
  shows "cornerPicks ss sp k st n = []"
  using assms
proof (induction k arbitrary: st n)
  case 0
  then show ?case by simp
next
  case (Suc k)
  from Suc.prems have kl: "k < length (regionSortIndices st)" by simp
  then have t: "take (Suc k) (regionSortIndices st)
                  = take k (regionSortIndices st) @ [regionSortIndices st ! k]"
    by (simp add: take_Suc_conv_app_nth)
  from Suc.prems(2) have "\<not> cornerCandidate ss sp st (regionSortIndices st ! k)"
    and r: "\<forall>idx \<in> set (take k (regionSortIndices st)).
           \<not> regionCurvature st ! (idx - sp) > surfaceCurvatureThreshold (params st)"
    unfolding t cornerCandidate_def by simp_all
  with Suc.IH [of st n] kl show ?case by (simp add: Let_def)
qed

lemma cornerPicks_single:
  assumes "k \<le> length (regionSortIndices st)"
    and "distinct (take k (regionSortIndices st))"
    and "idx0 \<in> set (take k (regionSortIndices st))"
    and "\<forall>idx \<in> set (take k (regionSortIndices st)). idx \<noteq> idx0 \<longrightarrow>
           \<not> regionCurvature st ! (idx - sp) > surfaceCurvatureThreshold (params st)"
    and "cornerCandidate ss sp st idx0"
    and "n < maxCornerLessSharp (params st)"
  shows "cornerPicks ss sp k st n = [idx0]"
  using assms
proof (induction k arbitrary: st n)
  case 0
  then show ?case by simp
next
  case (Suc k)
  let ?x = "regionSortIndices st ! k"
  let ?st1 = "selectCorner ss sp st ?x (n + 1)"
  from Suc.prems have kl: "k < length (regionSortIndices st)" by simp
  then have t: "take (Suc k) (regionSortIndices st) = take k (regionSortIndices st) @ [?x]"
    by (simp add: take_Suc_conv_app_nth)
  from Suc.prems(2) have d: "distinct (take k (regionSortIndices st))"
    and xn: "?x \<notin> set (take k (regionSortIndices st))"
    unfolding t by simp_all
  show ?case
  proof (cases "idx0 = ?x")
    case True
    have "\<forall>idx \<in> set (take k (regionSortIndices ?st1)).
           \<not> regionCurvature ?st1 ! (idx - sp) > surfaceCurvatureThreshold (params ?st1)"
      using Suc.prems(4) xn True unfolding t by (auto simp: selectCorner_frame)
    from cornerPicks_none [OF _ this, of ss "n + 1"] kl
    have "cornerPicks ss sp k ?st1 (n + 1) = []" by (simp add: selectCorner_frame)
    with True Suc.prems(5,6) show ?thesis by (simp add: Let_def)
  next
    case False
    with Suc.prems(3) have m: "idx0 \<in> set (take k (regionSortIndices st))"
      unfolding t by simp
    from False Suc.prems(4) have "\<not> cornerCandidate ss sp st ?x"
      unfolding t cornerCandidate_def by simp
    moreover from Suc.prems(4) have
      "\<forall>idx \<in> set (take k (regionSortIndices st)). idx \<noteq> idx0 \<longrightarrow>
           \<not> regionCurvature st ! (idx - sp) > surfaceCurvatureThreshold (params st)"
      unfolding t by simp
    ultimately show ?thesis
      using Suc.IH [of st n] kl d m Suc.prems(5,6) by (simp add: Let_def)
  qed
qed

lemma markForward_marks:
  assumes "i \<le> l" "l < i + n"
    and "\<forall>m \<in> {i .. l}. \<not> calcSquaredDiff (cloud ! (c + m)) (cloud ! (c + m - 1)) > 0.05"
    and "s + l < length picked"
  shows "markForward cloud c s picked i n ! (s + l) = 1"
  using assms
proof (induction n arbitrary: picked i)
  case 0
  then show ?case by simp
next
  case (Suc n)
  from Suc.prems(1,3) have here: "\<not> calcSquaredDiff (cloud ! (c + i)) (cloud ! (c + i - 1)) > 0.05"
    by simp
  then have e: "markForward cloud c s picked i (Suc n)
      = markForward cloud c s (picked[s + i := 1]) (i + 1) n" by simp
  show ?case
  proof (cases "l = i")
    case True
    with Suc.prems(4) have "(picked[s + i := 1]) ! (s + l) = 1" by simp
    from onlyOnes_one [OF markForward_onlyOnes this] show ?thesis unfolding e .
  next
    case False
    with Suc.prems(1,2) have a: "i + 1 \<le> l" "l < (i + 1) + n" by simp_all
    from Suc.prems(3) have b: "\<forall>m \<in> {i + 1 .. l}.
        \<not> calcSquaredDiff (cloud ! (c + m)) (cloud ! (c + m - 1)) > 0.05" by simp
    from Suc.prems(4) have d: "s + l < length (picked[s + i := 1])" by simp
    from Suc.IH [OF a b d] show ?thesis unfolding e .
  qed
qed

lemma markBackward_marks:
  assumes "i \<le> l" "l < i + n"
    and "\<forall>m \<in> {i .. l}. \<not> calcSquaredDiff (cloud ! (c - m)) (cloud ! (c - m + 1)) > 0.05"
    and "s - l < length picked"
  shows "markBackward cloud c s picked i n ! (s - l) = 1"
  using assms
proof (induction n arbitrary: picked i)
  case 0
  then show ?case by simp
next
  case (Suc n)
  from Suc.prems(1,3) have here: "\<not> calcSquaredDiff (cloud ! (c - i)) (cloud ! (c - i + 1)) > 0.05"
    by simp
  then have e: "markBackward cloud c s picked i (Suc n)
      = markBackward cloud c s (picked[s - i := 1]) (i + 1) n" by simp
  show ?case
  proof (cases "l = i")
    case True
    with Suc.prems(4) have "(picked[s - i := 1]) ! (s - l) = 1" by simp
    from onlyOnes_one [OF markBackward_onlyOnes this] show ?thesis unfolding e .
  next
    case False
    with Suc.prems(1,2) have a: "i + 1 \<le> l" "l < (i + 1) + n" by simp_all
    from Suc.prems(3) have b: "\<forall>m \<in> {i + 1 .. l}.
        \<not> calcSquaredDiff (cloud ! (c - m)) (cloud ! (c - m + 1)) > 0.05" by simp
    from Suc.prems(4) have d: "s - l < length (picked[s - i := 1])" by simp
    from Suc.IH [OF a b d] show ?thesis unfolding e .
  qed
qed

lemma markAsPicked_neighbours:
  assumes n: "pickedNeighbour (curvatureRegion (params st)) (laserCloud st) c j"
    and lo: "ss \<le> j" "ss \<le> c" and len: "j - ss < length (scanNeighborPicked st)"
  shows "scanNeighborPicked (markAsPicked st c (c - ss)) ! (j - ss) = 1"
proof -
  let ?cr = "curvatureRegion (params st)"
  let ?s = "c - ss"
  let ?p0 = "(scanNeighborPicked st)[?s := 1]"
  let ?p1 = "markForward (laserCloud st) c ?s ?p0 1 ?cr"
  let ?p2 = "markBackward (laserCloud st) c ?s ?p1 1 ?cr"
  have e: "scanNeighborPicked (markAsPicked st c ?s) = ?p2"
    by (simp add: markAsPicked_def Let_def)
  have l1: "length ?p1 = length (scanNeighborPicked st)"
    using onlyOnes_length [OF markForward_onlyOnes [of ?p0 "laserCloud st" c ?s 1 ?cr]] by simp
  from n consider
    (fwd) i where "1 \<le> i" "i \<le> ?cr" "j = c + i"
      "\<forall>l \<in> {1 .. i}. \<not> calcSquaredDiff (laserCloud st ! (c + l)) (laserCloud st ! (c + l - 1)) > 0.05"
  | (bwd) i where "1 \<le> i" "i \<le> ?cr" "i \<le> c" "j = c - i"
      "\<forall>l \<in> {1 .. i}. \<not> calcSquaredDiff (laserCloud st ! (c - l)) (laserCloud st ! (c - l + 1)) > 0.05"
    unfolding pickedNeighbour_def by auto
  then show ?thesis
  proof cases
    case fwd
    from fwd(3) lo have ji: "j - ss = ?s + i" by simp
    from len have "?s + i < length ?p0" unfolding ji by simp
    from markForward_marks [OF fwd(1) _ fwd(4) this] fwd(2)
    have "?p1 ! (?s + i) = 1" by simp
    from onlyOnes_one [OF markBackward_onlyOnes this] show ?thesis unfolding e ji .
  next
    case bwd
    from bwd(3,4) lo have ji: "j - ss = ?s - i" by simp
    from len have "?s - i < length ?p1" unfolding ji l1 .
    from markBackward_marks [OF bwd(1) _ bwd(5) this] bwd(2)
    show ?thesis unfolding e ji by simp
  qed
qed

lemma selectCorner_neighbours:
  assumes "pickedNeighbour (curvatureRegion (params st)) (laserCloud st) idx j"
    and "ss \<le> j" "ss \<le> idx" and "j - ss < length (scanNeighborPicked st)"
  shows "scanNeighborPicked (selectCorner ss sp st idx n) ! (j - ss) = 1"
proof -
  obtain st2 where e: "selectCorner ss sp st idx n = markAsPicked st2 idx (idx - ss)"
    and f: "scanNeighborPicked st2 = scanNeighborPicked st" "params st2 = params st"
      "laserCloud st2 = laserCloud st"
    by (simp add: selectCorner_def Let_def)
  from markAsPicked_neighbours [of st2 idx j ss] assms show ?thesis
    unfolding e f by simp
qed

lemma cornerPicks_unsuppressed:
  assumes "k \<le> length (regionSortIndices st)"
    and "\<forall>idx \<in> set (take k (regionSortIndices st)). idx - ss < length (scanNeighborPicked st)"
    and "\<forall>idx \<in> set (take k (regionSortIndices st)). ss \<le> idx"
  shows "\<forall>a b. a < b \<and> b < length (cornerPicks ss sp k st n) \<longrightarrow>
           \<not> pickedNeighbour (curvatureRegion (params st)) (laserCloud st)
               (cornerPicks ss sp k st n ! a) (cornerPicks ss sp k st n ! b)"
  using assms
proof (induction k arbitrary: st n)
  case 0
  then show ?case by simp
next
  case (Suc k)
  let ?idx = "regionSortIndices st ! k"
  let ?st1 = "selectCorner ss sp st ?idx (n + 1)"
  let ?S1 = "cornerPicks ss sp k ?st1 (n + 1)"
  from Suc.prems have kl: "k < length (regionSortIndices st)" by simp
  then have t: "take (Suc k) (regionSortIndices st) = take k (regionSortIndices st) @ [?idx]"
    by (simp add: take_Suc_conv_app_nth)
  from Suc.prems(2,3) have
    b: "\<forall>idx \<in> set (take k (regionSortIndices st)). idx - ss < length (scanNeighborPicked st)"
    and c: "\<forall>idx \<in> set (take k (regionSortIndices st)). ss \<le> idx"
    and bi: "?idx - ss < length (scanNeighborPicked st)" and ci: "ss \<le> ?idx"
    unfolding t by simp_all
  show ?case
  proof (cases rule: corner_step_cases [of n st ss sp k])
    case stop
    then show ?thesis by simp
  next
    case skip
    with Suc.IH [of st n] kl b c show ?thesis by simp
  next
    case pick
    have l1: "length (scanNeighborPicked ?st1) = length (scanNeighborPicked st)"
      using selectCorner_flags(1) [of st ss sp ?idx "n + 1"] by (rule onlyOnes_length)
    from Suc.IH [of ?st1 "n + 1"] kl b c l1
    have ih: "\<forall>a b. a < b \<and> b < length ?S1 \<longrightarrow>
           \<not> pickedNeighbour (curvatureRegion (params st)) (laserCloud st) (?S1 ! a) (?S1 ! b)"
      by (simp add: selectCorner_frame)
    have sub: "set ?S1 \<subseteq> set (take k (regionSortIndices st))"
      using cornerPicks_subset [of k ?st1 ss sp "n + 1"] kl by (simp add: selectCorner_frame)
    have hd: "\<not> pickedNeighbour (curvatureRegion (params st)) (laserCloud st) ?idx x"
      if x: "x \<in> set ?S1" for x
    proof
      assume nb: "pickedNeighbour (curvatureRegion (params st)) (laserCloud st) ?idx x"
      from x sub b c have xb: "x - ss < length (scanNeighborPicked st)" and xc: "ss \<le> x"
        by auto
      from selectCorner_neighbours [OF nb xc ci xb]
      have "scanNeighborPicked ?st1 ! (x - ss) = 1" .
      moreover from cornerPicks_candidates [of ss sp k ?st1 "n + 1"] x
      have "scanNeighborPicked ?st1 ! (x - ss) = 0" by (simp add: cornerCandidate_def)
      ultimately show False by simp
    qed
    show ?thesis
    proof (intro allI impI)
      fix a b'
      assume ab: "a < b' \<and> b' < length (cornerPicks ss sp (Suc k) st n)"
      then obtain b0 where b0: "b' = Suc b0" by (cases b') auto
      with ab have bl: "b0 < length ?S1" unfolding pick(4) by simp
      show "\<not> pickedNeighbour (curvatureRegion (params st)) (laserCloud st)
               (cornerPicks ss sp (Suc k) st n ! a) (cornerPicks ss sp (Suc k) st n ! b')"
      proof (cases a)
        case 0
        from bl have "?S1 ! b0 \<in> set ?S1" by simp
        from hd [OF this] show ?thesis unfolding pick(4) 0 b0 by simp
      next
        case (Suc a0)
        with ab b0 have "a0 < b0" by simp
        with ih bl show ?thesis unfolding pick(4) Suc b0 by simp
      qed
    qed
  qed
qed

section \<open>The sort of the region indices\<close>

lemma sortPass_insert:
  assumes "idxs = A @ [x] @ B @ R" and "length A = j"
    and "sorted_wrt (\<lambda>a b. key a \<le> key b) (A @ B)"
    and "\<forall>b \<in> set B. key x \<le> key b"
  shows "\<exists>C. sortPass key idxs j = C @ R \<and> mset C = mset (A @ [x] @ B)
             \<and> sorted_wrt (\<lambda>a b. key a \<le> key b) C"
  using assms
proof (induction j arbitrary: idxs A x B)
  case 0
  then have "sortPass key idxs 0 = (x # B) @ R" "sorted_wrt (\<lambda>a b. key a \<le> key b) (x # B)"
    by simp_all
  with 0 show ?case by (intro exI [of _ "x # B"]) simp
next
  case (Suc j)
  from Suc.prems(2) obtain A0 a where A: "A = A0 @ [a]" and l: "length A0 = j"
    by (metis length_Suc_conv_rev)
  have nj: "idxs ! j = a" and nsj: "idxs ! Suc j = x"
    using Suc.prems(1) l by (simp_all add: A nth_append)
  show ?case
  proof (cases "key x < key a")
    case True
    have sw: "idxs[Suc j := idxs ! j, j := idxs ! Suc j] = A0 @ [x] @ (a # B) @ R"
      unfolding nj nsj using Suc.prems(1) l by (simp add: A list_update_append)
    have s: "sorted_wrt (\<lambda>a b. key a \<le> key b) (A0 @ (a # B))"
      using Suc.prems(3) by (simp add: A)
    have b: "\<forall>b \<in> set (a # B). key x \<le> key b"
      using True Suc.prems(4) by auto
    from Suc.IH [OF sw l s b] obtain C where
      "sortPass key (idxs[Suc j := idxs ! j, j := idxs ! Suc j]) j = C @ R"
      "mset C = mset (A0 @ [x] @ (a # B))" "sorted_wrt (\<lambda>a b. key a \<le> key b) C"
      by blast
    with True show ?thesis
      by (intro exI [of _ C]) (simp add: nj nsj A)
  next
    case False
    have e: "idxs = A0 @ [a] @ (x # B) @ R"
      using Suc.prems(1) by (simp add: A)
    have s: "sorted_wrt (\<lambda>a b. key a \<le> key b) (A0 @ (x # B))"
      using Suc.prems(3,4) False by (auto simp: A sorted_wrt_append)
    have b: "\<forall>b \<in> set (x # B). key a \<le> key b"
      using False Suc.prems(3) by (auto simp: A sorted_wrt_append)
    from Suc.IH [OF e l s b] obtain C where
      "sortPass key idxs j = C @ R"
      "mset C = mset (A0 @ [a] @ (x # B))" "sorted_wrt (\<lambda>a b. key a \<le> key b) C"
      by blast
    with False show ?thesis
      by (intro exI [of _ C]) (simp add: nj nsj A)
  qed
qed

lemma sortPasses:
  assumes "Suc m \<le> length idxs"
  shows "\<exists>C. foldl (sortPass key) idxs [1..<Suc m] = C @ drop (Suc m) idxs
             \<and> mset C = mset (take (Suc m) idxs)
             \<and> sorted_wrt (\<lambda>a b. key a \<le> key b) C"
  using assms
proof (induction m)
  case 0
  then have "idxs = take 1 idxs @ drop 1 idxs" "length (take 1 idxs) = 1" by simp_all
  then have "sorted_wrt (\<lambda>a b. key a \<le> key b) (take 1 idxs)"
    by (metis length_0_conv length_Suc_conv One_nat_def sorted_wrt1)
  then show ?case by (intro exI [of _ "take 1 idxs"]) simp
next
  case (Suc m)
  from Suc obtain C where
    f: "foldl (sortPass key) idxs [1..<Suc m] = C @ drop (Suc m) idxs"
    and ms: "mset C = mset (take (Suc m) idxs)"
    and so: "sorted_wrt (\<lambda>a b. key a \<le> key b) C"
    by auto
  from ms have lc: "length C = Suc m"
    using Suc.prems by (metis length_take min.absorb2 size_mset Suc_leD)
  from Suc.prems have d: "drop (Suc m) idxs = [idxs ! Suc m] @ [] @ drop (Suc (Suc m)) idxs"
    by (simp add: Cons_nth_drop_Suc)
  have e: "C @ drop (Suc m) idxs = C @ [idxs ! Suc m] @ [] @ drop (Suc (Suc m)) idxs"
    using d by simp
  from sortPass_insert [OF e lc, of key] so obtain C' where
    c: "sortPass key (C @ drop (Suc m) idxs) (Suc m) = C' @ drop (Suc (Suc m)) idxs"
    "mset C' = mset (C @ [idxs ! Suc m] @ [])" "sorted_wrt (\<lambda>a b. key a \<le> key b) C'"
    by auto
  have t: "take (Suc (Suc m)) idxs = take (Suc m) idxs @ [idxs ! Suc m]"
    using Suc.prems by (simp add: take_Suc_conv_app_nth)
  have "foldl (sortPass key) idxs [1..<Suc (Suc m)]
          = sortPass key (foldl (sortPass key) idxs [1..<Suc m]) (Suc m)"
    by simp
  with c f ms t show ?case
    by (intro exI [of _ C']) simp
qed

lemma sortRegion_sorted:
  "mset (sortRegion key idxs) = mset idxs
   \<and> sorted_wrt (\<lambda>a b. key a \<le> key b) (sortRegion key idxs)"
proof (cases idxs)
  case Nil
  then show ?thesis by (simp add: sortRegion_def)
next
  case (Cons a as)
  then have l: "Suc (length as) \<le> length idxs" by simp
  from sortPasses [OF l, of key] Cons show ?thesis
    by (auto simp: sortRegion_def)
qed

section \<open>Region buffers and flat surface selection: auxiliary facts\<close>

lemma setRegionBuffersFor_frame:
  "params (setRegionBuffersFor st sp ep) = params st"
  "laserCloud (setRegionBuffersFor st sp ep) = laserCloud st"
  "scanNeighborPicked (setRegionBuffersFor st sp ep) = scanNeighborPicked st"
  "cornerPointsSharp (setRegionBuffersFor st sp ep) = cornerPointsSharp st"
  "cornerPointsLessSharp (setRegionBuffersFor st sp ep) = cornerPointsLessSharp st"
  "surfacePointsFlat (setRegionBuffersFor st sp ep) = surfacePointsFlat st"
  "surfacePointsLessFlat (setRegionBuffersFor st sp ep) = surfacePointsLessFlat st"
  "regionLabel (setRegionBuffersFor st sp ep) = replicate (ep - sp + 1) SURFACE_LESS_FLAT"
  "regionCurvature (setRegionBuffersFor st sp ep) =
     map (curvatureAt (curvatureRegion (params st)) (laserCloud st)) [sp ..< sp + (ep - sp + 1)]"
  by (simp_all add: setRegionBuffersFor_def Let_def)

lemma setRegionBuffersFor_sorted:
  "mset (regionSortIndices (setRegionBuffersFor st sp ep)) = mset [sp ..< sp + (ep - sp + 1)]"
  "sorted_wrt (\<lambda>a b. regionCurvature (setRegionBuffersFor st sp ep) ! (a - sp)
                       \<le> regionCurvature (setRegionBuffersFor st sp ep) ! (b - sp))
     (regionSortIndices (setRegionBuffersFor st sp ep))"
  using sortRegion_sorted
    [of "\<lambda>idx. regionCurvature (setRegionBuffersFor st sp ep) ! (idx - sp)"
        "[sp ..< sp + (ep - sp + 1)]"]
  by (simp_all add: setRegionBuffersFor_def Let_def)

lemma setRegionBuffersFor_indices:
  "set (regionSortIndices (setRegionBuffersFor st sp ep)) = {sp ..< sp + (ep - sp + 1)}"
  "distinct (regionSortIndices (setRegionBuffersFor st sp ep))"
  "length (regionSortIndices (setRegionBuffersFor st sp ep)) = ep - sp + 1"
proof -
  let ?xs = "regionSortIndices (setRegionBuffersFor st sp ep)"
  have m: "mset ?xs = mset [sp ..< sp + (ep - sp + 1)]" by (rule setRegionBuffersFor_sorted)
  from mset_eq_setD [OF m] show "set ?xs = {sp ..< sp + (ep - sp + 1)}" by (simp only: set_upt)
  from m show "distinct ?xs" by (metis distinct_upt mset_eq_imp_distinct_iff)
  from mset_eq_length [OF m] show "length ?xs = ep - sp + 1" by simp
qed

lemma selectFlat_frame:
  "params (selectFlat ss sp st idx) = params st"
  "laserCloud (selectFlat ss sp st idx) = laserCloud st"
  "regionSortIndices (selectFlat ss sp st idx) = regionSortIndices st"
  "regionCurvature (selectFlat ss sp st idx) = regionCurvature st"
  "cornerPointsSharp (selectFlat ss sp st idx) = cornerPointsSharp st"
  "cornerPointsLessSharp (selectFlat ss sp st idx) = cornerPointsLessSharp st"
  "surfacePointsLessFlat (selectFlat ss sp st idx) = surfacePointsLessFlat st"
  "surfacePointsFlat (selectFlat ss sp st idx) = surfacePointsFlat st @ [laserCloud st ! idx]"
  "regionLabel (selectFlat ss sp st idx) = (regionLabel st)[idx - sp := SURFACE_FLAT]"
  by (simp_all add: selectFlat_def Let_def markAsPicked_frame)

lemma selectFlat_flags:
  "onlyOnes (scanNeighborPicked st) (scanNeighborPicked (selectFlat ss sp st idx))"
proof -
  obtain st1 where e: "selectFlat ss sp st idx = markAsPicked st1 idx (idx - ss)"
    and f: "scanNeighborPicked st1 = scanNeighborPicked st"
    by (simp add: selectFlat_def Let_def)
  show ?thesis
    using markAsPicked_flags(1) [of st1 idx "idx - ss"] by (simp add: e f)
qed

lemma flat_step_cases:
  obtains (stop) "\<not> n < size_t_cast (maxSurfaceFlat (params st))"
      "flatLoop (Suc left) ss sp k st n = (st, n)"
      "flatPicks (Suc left) ss sp k st n = []"
  | (skip) "n < size_t_cast (maxSurfaceFlat (params st))"
      "\<not> flatCandidate ss sp st (regionSortIndices st ! k)"
      "flatLoop (Suc left) ss sp k st n = flatLoop left ss sp (k + 1) st n"
      "flatPicks (Suc left) ss sp k st n = flatPicks left ss sp (k + 1) st n"
  | (pick) "n < size_t_cast (maxSurfaceFlat (params st))"
      "flatCandidate ss sp st (regionSortIndices st ! k)"
      "flatLoop (Suc left) ss sp k st n =
         flatLoop left ss sp (k + 1) (selectFlat ss sp st (regionSortIndices st ! k)) (n + 1)"
      "flatPicks (Suc left) ss sp k st n =
         regionSortIndices st ! k
           # flatPicks left ss sp (k + 1) (selectFlat ss sp st (regionSortIndices st ! k)) (n + 1)"
proof (cases "n < size_t_cast (maxSurfaceFlat (params st))")
  case False
  then show ?thesis by (intro stop) simp_all
next
  case True
  show ?thesis
  proof (cases "flatCandidate ss sp st (regionSortIndices st ! k)")
    case c: True
    with True show ?thesis by (intro pick) (simp_all add: Let_def)
  next
    case c: False
    with True show ?thesis by (intro skip) (simp_all add: Let_def)
  qed
qed

lemma flatLoop_frame:
  "params (fst (flatLoop left ss sp k st n)) = params st
   \<and> laserCloud (fst (flatLoop left ss sp k st n)) = laserCloud st
   \<and> regionSortIndices (fst (flatLoop left ss sp k st n)) = regionSortIndices st
   \<and> regionCurvature (fst (flatLoop left ss sp k st n)) = regionCurvature st
   \<and> cornerPointsSharp (fst (flatLoop left ss sp k st n)) = cornerPointsSharp st
   \<and> cornerPointsLessSharp (fst (flatLoop left ss sp k st n)) = cornerPointsLessSharp st
   \<and> surfacePointsLessFlat (fst (flatLoop left ss sp k st n)) = surfacePointsLessFlat st
   \<and> length (regionLabel (fst (flatLoop left ss sp k st n))) = length (regionLabel st)
   \<and> onlyOnes (scanNeighborPicked st) (scanNeighborPicked (fst (flatLoop left ss sp k st n)))
   \<and> surfacePointsFlat (fst (flatLoop left ss sp k st n)) =
       surfacePointsFlat st @ map ((!) (laserCloud st)) (flatPicks left ss sp k st n)"
proof (induction left arbitrary: st n k)
  case 0
  then show ?case by (simp add: onlyOnes_refl)
next
  case (Suc left)
  let ?idx = "regionSortIndices st ! k"
  let ?st1 = "selectFlat ss sp st ?idx"
  show ?case
  proof (cases rule: flat_step_cases [of n st left ss sp k])
    case stop
    then show ?thesis by (simp add: onlyOnes_refl)
  next
    case skip
    with Suc.IH [where st = st and n = n and k = "k + 1"] show ?thesis by simp
  next
    case pick
    from Suc.IH [where st = ?st1 and n = "n + 1" and k = "k + 1"]
      onlyOnes_trans [OF selectFlat_flags [of st ss sp ?idx]]
    show ?thesis unfolding pick(3,4) by (simp add: selectFlat_frame)
  qed
qed

lemma flat_candidate_back:
  assumes "onlyOnes (scanNeighborPicked st) (scanNeighborPicked st1)"
    and "regionCurvature st1 = regionCurvature st" and "params st1 = params st"
    and "flatCandidate ss sp st1 idx"
  shows "flatCandidate ss sp st idx"
  using assms onlyOnes_nonzero [OF assms(1), of "idx - ss"]
  unfolding flatCandidate_def by auto

lemma flatPicks_candidates:
  "\<forall>idx \<in> set (flatPicks left ss sp k st n). flatCandidate ss sp st idx"
proof (induction left arbitrary: st n k)
  case 0
  then show ?case by simp
next
  case (Suc left)
  let ?idx = "regionSortIndices st ! k"
  let ?st1 = "selectFlat ss sp st ?idx"
  show ?case
  proof (cases rule: flat_step_cases [of n st left ss sp k])
    case stop
    then show ?thesis by simp
  next
    case skip
    with Suc.IH [where st = st and n = n and k = "k + 1"] show ?thesis by simp
  next
    case pick
    have "flatCandidate ss sp st idx"
      if "idx \<in> set (flatPicks left ss sp (k + 1) ?st1 (n + 1))" for idx
    proof -
      from Suc.IH [where st = ?st1 and n = "n + 1" and k = "k + 1"] that have "flatCandidate ss sp ?st1 idx" by simp
      then show ?thesis
        by (rule flat_candidate_back [OF selectFlat_flags selectFlat_frame(4)
              selectFlat_frame(1)])
    qed
    with pick show ?thesis by simp
  qed
qed

lemma flatPicks_subset:
  assumes "k + left \<le> length (regionSortIndices st)"
  shows "set (flatPicks left ss sp k st n) \<subseteq> set (regionSortIndices st)"
  using assms
proof (induction left arbitrary: st n k)
  case 0
  then show ?case by simp
next
  case (Suc left)
  let ?idx = "regionSortIndices st ! k"
  let ?st1 = "selectFlat ss sp st ?idx"
  from Suc.prems have kl: "k < length (regionSortIndices st)"
    and r: "(k + 1) + left \<le> length (regionSortIndices st)" by simp_all
  show ?case
  proof (cases rule: flat_step_cases [of n st left ss sp k])
    case stop
    then show ?thesis by simp
  next
    case skip
    with Suc.IH [where st = st and n = n and k = "k + 1"] r show ?thesis by simp
  next
    case pick
    with Suc.IH [where st = ?st1 and n = "n + 1" and k = "k + 1"] r kl show ?thesis
      by (simp add: selectFlat_frame)
  qed
qed

lemma flatLoop_labels:
  assumes "r < length (regionLabel st)"
  shows "regionLabel (fst (flatLoop left ss sp k st n)) ! r =
           (if r \<in> (\<lambda>i. i - sp) ` set (flatPicks left ss sp k st n) then SURFACE_FLAT
            else regionLabel st ! r)"
  using assms
proof (induction left arbitrary: st n k)
  case 0
  then show ?case by simp
next
  case (Suc left)
  let ?idx = "regionSortIndices st ! k"
  let ?st1 = "selectFlat ss sp st ?idx"
  show ?case
  proof (cases rule: flat_step_cases [of n st left ss sp k])
    case stop
    then show ?thesis by simp
  next
    case skip
    with Suc.IH [where st = st and n = n and k = "k + 1"] Suc.prems show ?thesis by simp
  next
    case pick
    from Suc.IH [where st = ?st1 and n = "n + 1" and k = "k + 1"] Suc.prems
    show ?thesis unfolding pick(3,4)
      by (auto simp: selectFlat_frame nth_list_update)
  qed
qed

section \<open>Corner selection in one region: auxiliary facts\<close>

text \<open>Facts about one region, collected.\<close>

lemma region_corner_facts:
  assumes ss: "ss \<le> sp" and se: "sp \<le> ep"
    and fl: "ep - ss < length (scanNeighborPicked st)"
  defines "st1 \<equiv> setRegionBuffersFor st sp ep"
  defines "n \<equiv> ep - sp + 1"
  defines "S \<equiv> cornerPicks ss sp n st1 0"
  defines "st2 \<equiv> fst (cornerLoop ss sp n st1 0)"
  defines "m \<equiv> nat (maxCornerSharp (params st))"
  shows "subseq S (rev (regionSortIndices st1))"
    and "distinct S" and "set S \<subseteq> {sp ..< sp + n}"
    and "\<forall>idx \<in> set S. cornerCandidate ss sp st1 idx"
    and "int (length S) \<le> max 0 (maxCornerLessSharp (params st))"
    and "cornerPointsLessSharp st2 = cornerPointsLessSharp st @ map ((!) (laserCloud st)) S"
    and "cornerPointsSharp st2 = cornerPointsSharp st @ map ((!) (laserCloud st)) (take m S)"
    and "\<forall>r < n. regionLabel st2 ! r =
           (if r \<in> (\<lambda>i. i - sp) ` set (take m S) then CORNER_SHARP
            else if r \<in> (\<lambda>i. i - sp) ` set (drop m S) then CORNER_LESS_SHARP
            else SURFACE_LESS_FLAT)"
    and "\<forall>idx \<in> set S. scanNeighborPicked st2 ! (idx - ss) = 1"
    and "\<forall>a b. a < b \<and> b < length S \<longrightarrow>
           \<not> pickedNeighbour (curvatureRegion (params st)) (laserCloud st) (S ! a) (S ! b)"
proof -
  have len: "n \<le> length (regionSortIndices st1)" "take n (regionSortIndices st1) = regionSortIndices st1"
    unfolding st1_def n_def by (simp_all add: setRegionBuffersFor_indices)
  have rng: "set (regionSortIndices st1) = {sp ..< sp + n}"
    unfolding st1_def n_def by (rule setRegionBuffersFor_indices)
  have b: "\<forall>idx \<in> set (take n (regionSortIndices st1)). idx - ss < length (scanNeighborPicked st1)"
  proof
    fix idx assume "idx \<in> set (take n (regionSortIndices st1))"
    then have "idx < sp + n" unfolding len(2) rng by simp
    with se have "idx \<le> ep" unfolding n_def by linarith
    with fl have "idx - ss < length (scanNeighborPicked st)" by linarith
    then show "idx - ss < length (scanNeighborPicked st1)"
      unfolding st1_def by (simp add: setRegionBuffersFor_frame)
  qed
  have c: "\<forall>idx \<in> set (take n (regionSortIndices st1)). ss \<le> idx"
    "\<forall>idx \<in> set (take n (regionSortIndices st1)). sp \<le> idx"
    unfolding len(2) rng using ss by auto
  show "subseq S (rev (regionSortIndices st1))"
    using cornerPicks_order [OF len(1), of ss sp 0] unfolding S_def len(2) .
  show "distinct S"
    unfolding S_def by (rule cornerPicks_distinct [OF len(1) b c(1)])
  show "set S \<subseteq> {sp ..< sp + n}"
    using cornerPicks_subset [OF len(1), of ss sp 0] unfolding S_def len(2) rng .
  show "\<forall>idx \<in> set S. cornerCandidate ss sp st1 idx"
    unfolding S_def by (rule cornerPicks_candidates)
  show "int (length S) \<le> max 0 (maxCornerLessSharp (params st))"
    using cornerLoop_counter [of ss sp n st1 0] unfolding S_def st1_def
    by (simp add: setRegionBuffersFor_frame)
  show "cornerPointsLessSharp st2 = cornerPointsLessSharp st @ map ((!) (laserCloud st)) S"
    using cornerLoop_clouds [of ss sp n st1 0] unfolding S_def st2_def st1_def
    by (simp add: setRegionBuffersFor_frame)
  show "cornerPointsSharp st2 = cornerPointsSharp st @ map ((!) (laserCloud st)) (take m S)"
    using cornerLoop_clouds [of ss sp n st1 0] unfolding S_def st2_def st1_def m_def
    by (simp add: setRegionBuffersFor_frame)
  show "\<forall>r < n. regionLabel st2 ! r =
           (if r \<in> (\<lambda>i. i - sp) ` set (take m S) then CORNER_SHARP
            else if r \<in> (\<lambda>i. i - sp) ` set (drop m S) then CORNER_LESS_SHARP
            else SURFACE_LESS_FLAT)"
  proof (intro allI impI)
    fix r assume r: "r < n"
    then have rl: "r < length (regionLabel st1)"
      unfolding st1_def n_def by (simp add: setRegionBuffersFor_frame)
    have l0: "regionLabel st1 ! r = SURFACE_LESS_FLAT"
      using r unfolding st1_def n_def setRegionBuffersFor_frame by (simp only: nth_replicate)
    have pm: "nat (maxCornerSharp (params st1) - 0) = m"
      unfolding st1_def m_def by (simp add: setRegionBuffersFor_frame)
    from cornerLoop_labels [OF len(1) b c(2) rl, of 0] l0
    show "regionLabel st2 ! r =
           (if r \<in> (\<lambda>i. i - sp) ` set (take m S) then CORNER_SHARP
            else if r \<in> (\<lambda>i. i - sp) ` set (drop m S) then CORNER_LESS_SHARP
            else SURFACE_LESS_FLAT)"
      unfolding pm S_def st2_def by simp
  qed
  show "\<forall>idx \<in> set S. scanNeighborPicked st2 ! (idx - ss) = 1"
    unfolding S_def st2_def by (rule cornerLoop_picked [OF len(1) b])
  have pc: "params st1 = params st" "laserCloud st1 = laserCloud st"
    unfolding st1_def by (rule setRegionBuffersFor_frame)+
  show "\<forall>a b. a < b \<and> b < length S \<longrightarrow>
           \<not> pickedNeighbour (curvatureRegion (params st)) (laserCloud st) (S ! a) (S ! b)"
    using cornerPicks_unsuppressed [OF len(1) b c(1), of sp 0] unfolding S_def pc .
qed


lemma region_curvature:
  assumes "idx \<in> {sp ..< sp + (ep - sp + 1)}"
  shows "regionCurvature (setRegionBuffersFor st sp ep) ! (idx - sp)
           = curvatureAt (curvatureRegion (params st)) (laserCloud st) idx"
proof -
  from assms have "idx - sp < ep - sp + 1" "sp + (idx - sp) = idx" by auto
  then show ?thesis
    unfolding setRegionBuffersFor_frame by (simp del: upt_Suc)
qed

lemma region_order:
  "set (rev (regionSortIndices (setRegionBuffersFor st sp ep))) = {sp ..< sp + (ep - sp + 1)}"
  "sorted_wrt (\<lambda>a b. curvatureAt (curvatureRegion (params st)) (laserCloud st) b
                       \<le> curvatureAt (curvatureRegion (params st)) (laserCloud st) a)
     (rev (regionSortIndices (setRegionBuffersFor st sp ep)))"
proof -
  let ?st1 = "setRegionBuffersFor st sp ep"
  let ?curv = "curvatureAt (curvatureRegion (params st)) (laserCloud st)"
  show r: "set (rev (regionSortIndices ?st1)) = {sp ..< sp + (ep - sp + 1)}"
    by (simp only: set_rev setRegionBuffersFor_indices)
  have "sorted_wrt (\<lambda>a b. regionCurvature ?st1 ! (a - sp) \<le> regionCurvature ?st1 ! (b - sp))
          (regionSortIndices ?st1)"
    by (rule setRegionBuffersFor_sorted)
  then have "sorted_wrt (\<lambda>a b. ?curv a \<le> ?curv b) (regionSortIndices ?st1)"
  proof (rule sorted_wrt_mono_rel [rotated])
    fix a b
    assume "a \<in> set (regionSortIndices ?st1)" "b \<in> set (regionSortIndices ?st1)"
      "regionCurvature ?st1 ! (a - sp) \<le> regionCurvature ?st1 ! (b - sp)"
    then show "?curv a \<le> ?curv b"
      using region_curvature [of a sp ep st] region_curvature [of b sp ep st]
      by (simp only: setRegionBuffersFor_indices)
  qed
  then show "sorted_wrt (\<lambda>a b. ?curv b \<le> ?curv a) (rev (regionSortIndices ?st1))"
    by (simp add: sorted_wrt_rev)
qed


lemma minus_inj_from:
  assumes "(sp::nat) \<le> a" "sp \<le> b" "a - sp = b - sp"
  shows "a = b"
  using assms by linarith


lemma lessFlatOfRegion_indices:
  "lessFlatOfRegion st sp n = map ((!) (laserCloud st)) (lessFlatIndices st sp n)"
  by (simp add: lessFlatOfRegion_def lessFlatIndices_def comp_def)

lemma extractRegion_eq:
  "extractRegion ss sp ep (st, lf) =
     (fst (flatLoop (ep - sp + 1) ss sp 0
             (fst (cornerLoop ss sp (ep - sp + 1) (setRegionBuffersFor st sp ep) 0)) 0),
      lf @ lessFlatOfRegion
             (fst (flatLoop (ep - sp + 1) ss sp 0
                (fst (cornerLoop ss sp (ep - sp + 1) (setRegionBuffersFor st sp ep) 0)) 0))
             sp (ep - sp + 1))"
  by (simp add: extractRegion_def Let_def case_prod_unfold)

lemma region_cloud_facts:
  assumes ss: "ss \<le> sp" and se: "sp \<le> ep"
    and fl: "ep - ss < length (scanNeighborPicked st)"
    and st1_def: "st1 = setRegionBuffersFor st sp ep"
    and n_def: "n = ep - sp + 1"
    and S_def: "S = cornerPicks ss sp n st1 0"
    and st2_def: "st2 = fst (cornerLoop ss sp n st1 0)"
    and F_def: "F = flatPicks n ss sp 0 st2 0"
    and m_def: "m = nat (maxCornerSharp (params st))"
    and res: "extractRegion ss sp ep (st, lf) = (st3, lf')"
    and L_def: "L = lessFlatIndices st3 sp n"
  shows "cornerPointsSharp st3 = cornerPointsSharp st @ map ((!) (laserCloud st)) (take m S)"
    and "cornerPointsLessSharp st3 = cornerPointsLessSharp st @ map ((!) (laserCloud st)) S"
    and "\<forall>idx \<in> set (take m S). regionLabel st3 ! (idx - sp) = CORNER_SHARP"
    and "\<forall>idx \<in> set (drop m S). regionLabel st3 ! (idx - sp) = CORNER_LESS_SHARP"
    and "set (take m S) \<inter> set (drop m S) = {}"
    and "surfacePointsFlat st3 = surfacePointsFlat st @ map ((!) (laserCloud st)) F"
    and "set F \<inter> set S = {}"
    and "lf' = lf @ map ((!) (laserCloud st)) L"
    and "set L \<inter> set S = {}"
proof -
  note f = region_corner_facts [OF ss se fl, folded st1_def n_def, folded S_def st2_def m_def]
  from res have st3: "st3 = fst (flatLoop n ss sp 0 st2 0)"
    and lf': "lf' = lf @ lessFlatOfRegion st3 sp n"
    unfolding extractRegion_eq st1_def [symmetric] n_def [symmetric]
    unfolding st2_def [symmetric] by auto
  note g = flatLoop_frame [of n ss sp 0 st2 0, folded st3 F_def]
  have fr1: "laserCloud st1 = laserCloud st" "surfacePointsFlat st1 = surfacePointsFlat st"
    unfolding st1_def by (rule setRegionBuffersFor_frame)+
  from cornerLoop_frame [of ss sp n st1 0, folded st2_def] fr1
  have fr2: "laserCloud st2 = laserCloud st" "surfacePointsFlat st2 = surfacePointsFlat st"
    "regionSortIndices st2 = regionSortIndices st1"
    "length (regionLabel st2) = length (regionLabel st1)"
    by simp_all
  have ll: "length (regionLabel st2) = n"
    unfolding fr2(4) st1_def n_def by (simp add: setRegionBuffersFor_frame)
  have rng: "set (regionSortIndices st2) = {sp ..< sp + n}"
    and len: "length (regionSortIndices st2) = n"
    unfolding fr2(3) st1_def n_def by (rule setRegionBuffersFor_indices)+
  have inr: "sp \<le> idx \<and> idx - sp < n" if "idx \<in> set S" for idx
    using f(3) that by (auto simp: less_diff_conv2)
  have Fsub: "set F \<subseteq> {sp ..< sp + n}"
    using flatPicks_subset [of 0 n st2 ss sp 0] unfolding F_def [symmetric] rng len by simp
  have FS: "set F \<inter> set S = {}"
  proof (rule ccontr)
    assume "set F \<inter> set S \<noteq> {}"
    then obtain idx where a: "idx \<in> set F" and b: "idx \<in> set S" by blast
    from flatPicks_candidates [of n ss sp 0 st2 0] a
    have "scanNeighborPicked st2 ! (idx - ss) = 0"
      unfolding F_def [symmetric] flatCandidate_def by blast
    moreover from f(9) b have "scanNeighborPicked st2 ! (idx - ss) = 1" by blast
    ultimately show False by simp
  qed
  have keep: "regionLabel st3 ! (idx - sp) = regionLabel st2 ! (idx - sp)"
    if s: "idx \<in> set S" for idx
  proof -
    from inr [OF s] have r: "sp \<le> idx" "idx - sp < length (regionLabel st2)"
      unfolding ll by simp_all
    have "idx - sp \<notin> (\<lambda>i. i - sp) ` set F"
    proof
      assume "idx - sp \<in> (\<lambda>i. i - sp) ` set F"
      then obtain i where i: "i \<in> set F" "idx - sp = i - sp" by blast
      with Fsub have "sp \<le> i" by auto
      from minus_inj_from [OF r(1) this i(2)] i(1) s FS show False by blast
    qed
    with flatLoop_labels [OF r(2), of n ss sp 0 0, folded st3 F_def]
    show ?thesis by simp
  qed
  have td: "set (take m S) \<inter> set (drop m S) = {}"
    using f(2) by (metis append_take_drop_id distinct_append)
  have img: "idx - sp \<in> (\<lambda>i. i - sp) ` set T \<longleftrightarrow> idx \<in> set T"
    if "idx \<in> set S" "set T \<subseteq> set S" for idx T
  proof
    assume "idx - sp \<in> (\<lambda>i. i - sp) ` set T"
    then obtain i where i: "i \<in> set T" "idx - sp = i - sp" by blast
    from i(1) that(2) have "i \<in> set S" by blast
    from inr [OF this] inr [OF that(1)] have "sp \<le> i" "sp \<le> idx" by simp_all
    from minus_inj_from [OF this(2) this(1) i(2)] i(1) show "idx \<in> set T" by simp
  next
    assume "idx \<in> set T"
    then show "idx - sp \<in> (\<lambda>i. i - sp) ` set T" by (rule imageI)
  qed
  have lab: "regionLabel st2 ! r =
           (if r \<in> (\<lambda>i. i - sp) ` set (take m S) then CORNER_SHARP
            else if r \<in> (\<lambda>i. i - sp) ` set (drop m S) then CORNER_LESS_SHARP
            else SURFACE_LESS_FLAT)" if "r < n" for r
    using f(8) that by blast
  have sharp: "regionLabel st3 ! (idx - sp) = CORNER_SHARP" if a: "idx \<in> set (take m S)" for idx
  proof -
    from a have s: "idx \<in> set S" by (rule in_set_takeD)
    from a have "idx - sp \<in> (\<lambda>i. i - sp) ` set (take m S)" by (rule imageI)
    with lab [of "idx - sp"] inr [OF s] keep [OF s] show ?thesis by simp
  qed
  have less: "regionLabel st3 ! (idx - sp) = CORNER_LESS_SHARP"
    if a: "idx \<in> set (drop m S)" for idx
  proof -
    from a have s: "idx \<in> set S" by (rule in_set_dropD)
    from a td have "idx \<notin> set (take m S)" by blast
    with img [OF s set_take_subset]
    have nt: "idx - sp \<notin> (\<lambda>i. i - sp) ` set (take m S)" by simp
    from a have "idx - sp \<in> (\<lambda>i. i - sp) ` set (drop m S)" by (rule imageI)
    with lab [of "idx - sp"] nt inr [OF s] keep [OF s] show ?thesis by simp
  qed
  have LS: "set L \<inter> set S = {}"
  proof (rule ccontr)
    assume "set L \<inter> set S \<noteq> {}"
    then obtain idx where a: "idx \<in> set L" and s: "idx \<in> set S" by blast
    from a obtain k where k: "idx = sp + k"
      "labelValue (regionLabel st3 ! k) \<le> labelValue SURFACE_LESS_FLAT"
      unfolding L_def lessFlatIndices_def by auto
    from k(1) have e: "idx - sp = k" by simp
    from s have "idx \<in> set (take m S) \<or> idx \<in> set (drop m S)"
      by (metis Un_iff append_take_drop_id set_append)
    with sharp less have "regionLabel st3 ! k = CORNER_SHARP
        \<or> regionLabel st3 ! k = CORNER_LESS_SHARP"
      unfolding e [symmetric] by blast
    with k(2) show False by auto
  qed
  have c1: "cornerPointsSharp st3 = cornerPointsSharp st @ map ((!) (laserCloud st)) (take m S)"
    using g f(7) by simp
  have c2: "cornerPointsLessSharp st3 = cornerPointsLessSharp st @ map ((!) (laserCloud st)) S"
    using g f(6) by simp
  have c3: "surfacePointsFlat st3 = surfacePointsFlat st @ map ((!) (laserCloud st)) F"
    using g fr2 by simp
  have c4: "lf' = lf @ map ((!) (laserCloud st)) L"
    unfolding lf' lessFlatOfRegion_indices L_def using g fr2 by simp
  from c1 show "cornerPointsSharp st3
      = cornerPointsSharp st @ map ((!) (laserCloud st)) (take m S)" .
  from c2 show "cornerPointsLessSharp st3
      = cornerPointsLessSharp st @ map ((!) (laserCloud st)) S" .
  from sharp show "\<forall>idx \<in> set (take m S). regionLabel st3 ! (idx - sp) = CORNER_SHARP"
    by blast
  from less show "\<forall>idx \<in> set (drop m S). regionLabel st3 ! (idx - sp) = CORNER_LESS_SHARP"
    by blast
  from td show "set (take m S) \<inter> set (drop m S) = {}" .
  from c3 show "surfacePointsFlat st3
      = surfacePointsFlat st @ map ((!) (laserCloud st)) F" .
  from FS show "set F \<inter> set S = {}" .
  from c4 show "lf' = lf @ map ((!) (laserCloud st)) L" .
  from LS show "set L \<inter> set S = {}" .
qed


lemma cornerPicks_no_candidate:
  assumes "k \<le> length (regionSortIndices st)"
    and "\<forall>idx \<in> set (take k (regionSortIndices st)). \<not> cornerCandidate ss sp st idx"
  shows "cornerPicks ss sp k st n = []"
  using assms
proof (induction k arbitrary: n)
  case 0
  then show ?case by simp
next
  case (Suc k)
  from Suc.prems have kl: "k < length (regionSortIndices st)" by simp
  then have t: "take (Suc k) (regionSortIndices st)
      = take k (regionSortIndices st) @ [regionSortIndices st ! k]"
    by (rule take_Suc_conv_app_nth)
  from Suc.prems(2) have a: "\<not> cornerCandidate ss sp st (regionSortIndices st ! k)"
    and b: "\<forall>idx \<in> set (take k (regionSortIndices st)). \<not> cornerCandidate ss sp st idx"
    unfolding t by simp_all
  from kl have "k \<le> length (regionSortIndices st)" by simp
  from Suc.IH [OF this b] a show ?case by simp
qed

lemma extractScan_one_region:
  assumes "nFeatureRegions (params st) = 1"
    and "\<not> e \<le> s + 2 * curvatureRegion (params st)"
    and "regionStart (params st) s e 0 = sp" and "regionEnd (params st) s e 0 = ep"
    and "\<not> ep \<le> sp"
  shows "extractScan d st (s, e) =
           (fst (extractRegion s sp ep (setScanBuffersFor st s e, [])))
             \<lparr>surfacePointsLessFlat :=
                surfacePointsLessFlat (fst (extractRegion s sp ep (setScanBuffersFor st s e, [])))
                  @ d (lessFlatFilterSize
                         (params (fst (extractRegion s sp ep (setScanBuffersFor st s e, [])))))
                      (snd (extractRegion s sp ep (setScanBuffersFor st s e, [])))\<rparr>"
  using assms by (simp add: extractScan_def Let_def case_prod_unfold)

lemma extractFeatures_one_scan:
  assumes "scanIndices st = [r]"
  shows "extractFeatures d st 0 = extractScan d st r"
  using assms by (simp add: extractFeatures_def)

section \<open>The concrete scans\<close>

lemma regOne_sel:
  "curvatureRegion (params (regOne cloud)) = 1"
  "nFeatureRegions (params (regOne cloud)) = 1"
  "maxCornerSharp (params (regOne cloud)) = 2"
  "maxCornerLessSharp (params (regOne cloud)) = 20"
  "maxSurfaceFlat (params (regOne cloud)) = 4"
  "surfaceCurvatureThreshold (params (regOne cloud)) = 1 / 10"
  "laserCloud (regOne cloud) = cloud"
  "scanIndices (regOne cloud) = [(0, length cloud - 1)]"
  "cornerPointsSharp (regOne cloud) = []"
  "cornerPointsLessSharp (regOne cloud) = []"
  "surfacePointsFlat (regOne cloud) = []"
  "surfacePointsLessFlat (regOne cloud) = []"
  by (simp_all add: regOne_def reg0_def defaultParams_def)

lemma setScanBuffersFor_frame:
  "params (setScanBuffersFor st s e) = params st"
  "laserCloud (setScanBuffersFor st s e) = laserCloud st"
  "cornerPointsSharp (setScanBuffersFor st s e) = cornerPointsSharp st"
  "cornerPointsLessSharp (setScanBuffersFor st s e) = cornerPointsLessSharp st"
  "surfacePointsFlat (setScanBuffersFor st s e) = surfacePointsFlat st"
  "surfacePointsLessFlat (setScanBuffersFor st s e) = surfacePointsLessFlat st"
  "scanNeighborPicked (setScanBuffersFor st s e)
     = scanFlags (curvatureRegion (params st)) (laserCloud st) s e"
  by (simp_all add: setScanBuffersFor_def)

lemma bump_gaps:
  "calcSquaredDiff (onRay a) (offRay b) = (a - b) * (a - b) + 1 / 25"
  "calcSquaredDiff (offRay a) (onRay b) = (a - b) * (a - b) + 1 / 25"
  "calcSquaredPointDistance (offRay a) = a * a + 1 / 25"
  by (simp_all add: calcSquaredDiff_def calcSquaredPointDistance_def onRay_def offRay_def)

lemma nearBump_conds:
  "\<not> occludedBefore nearBump (Suc 0)" "\<not> occludedAfter nearBump (Suc 0)"
  "gapsExceed nearBump (Suc 0)"
  "\<not> occludedBefore nearBump 2" "\<not> occludedAfter nearBump 2" "gapsExceed nearBump 2"
  "\<not> occludedBefore nearBump 3" "\<not> occludedAfter nearBump 3" "gapsExceed nearBump 3"
  "\<not> occludedBefore nearBump 4" "\<not> occludedAfter nearBump 4" "gapsExceed nearBump 4"
  by (simp_all add: occludedBefore_def occludedAfter_def gapsExceed_def nearBump_def onRay_gaps
      bump_gaps Let_def)

lemma farBump_conds:
  "\<not> occludedBefore farBump (Suc 0)" "\<not> occludedAfter farBump (Suc 0)"
  "\<not> gapsExceed farBump (Suc 0)"
  "\<not> occludedBefore farBump 2" "\<not> occludedAfter farBump 2" "\<not> gapsExceed farBump 2"
  "\<not> occludedBefore farBump 3" "\<not> occludedAfter farBump 3" "\<not> gapsExceed farBump 3"
  "\<not> occludedBefore farBump 4" "\<not> occludedAfter farBump 4" "\<not> gapsExceed farBump 4"
  by (simp_all add: occludedBefore_def occludedAfter_def gapsExceed_def farBump_def onRay_gaps
      bump_gaps Let_def)

lemma upt15: "[0 + 1 ..< 6 - 1] = [1, 2, 3, 4::nat]"
  by (simp add: upt_rec)

lemma rep7: "replicate (6 - 0 + 1) (0::int) = [0, 0, 0, 0, 0, 0, 0]"
  by (simp add: numeral_eq_Suc)

lemma nearBump_flags: "scanFlags 1 nearBump 0 6 = [0, 1, 1, 1, 1, 0, 0]"
  unfolding scanFlags_def upt15 rep7 by (simp add: scanStep_def nearBump_conds)

lemma farBump_flags: "scanFlags 1 farBump 0 6 = [0, 0, 0, 0, 0, 0, 0]"
  unfolding scanFlags_def upt15 rep7 by (simp add: scanStep_def farBump_conds)

lemma curvatureAt_1:
  "curvatureAt 1 cloud i =
     (pt_x (cloud ! (i + 1)) + pt_x (cloud ! (i - 1)) - 2 * pt_x (cloud ! i))
       * (pt_x (cloud ! (i + 1)) + pt_x (cloud ! (i - 1)) - 2 * pt_x (cloud ! i))
     + (pt_y (cloud ! (i + 1)) + pt_y (cloud ! (i - 1)) - 2 * pt_y (cloud ! i))
       * (pt_y (cloud ! (i + 1)) + pt_y (cloud ! (i - 1)) - 2 * pt_y (cloud ! i))
     + (pt_z (cloud ! (i + 1)) + pt_z (cloud ! (i - 1)) - 2 * pt_z (cloud ! i))
       * (pt_z (cloud ! (i + 1)) + pt_z (cloud ! (i - 1)) - 2 * pt_z (cloud ! i))"
  by (simp add: curvatureAt_def Let_def algebra_simps)

lemma nearBump_curvature:
  "curvatureAt 1 nearBump (Suc 0) = 0" "curvatureAt 1 nearBump 2 = 1 / 25"
  "curvatureAt 1 nearBump 3 = 4 / 25" "curvatureAt 1 nearBump 4 = 1 / 25"
  unfolding curvatureAt_1 by (simp_all add: nearBump_def onRay_def offRay_def)

lemma farBump_curvature:
  "curvatureAt 1 farBump (Suc 0) = 0" "curvatureAt 1 farBump 2 = 1 / 25"
  "curvatureAt 1 farBump 3 = 4 / 25" "curvatureAt 1 farBump 4 = 1 / 25"
  unfolding curvatureAt_1 by (simp_all add: farBump_def onRay_def offRay_def)

lemma region14: "idx \<in> {1 ..< 1 + (4 - 1 + 1)} \<longleftrightarrow> idx = Suc 0 \<or> idx = 2 \<or> idx = 3 \<or> idx = (4::nat)"
  by auto

lemma regOne_region:
  "regionStart (params (regOne cloud)) 0 6 0 = 1" "regionEnd (params (regOne cloud)) 0 6 0 = 4"
  by (simp_all add: regionStart_def regionEnd_def regOne_sel size_t_sub_def)


lemma regOne_scan: "scanIndices (regOne nearBump) = [(0, 6)]" "scanIndices (regOne farBump) = [(0, 6)]"
  by (simp_all add: regOne_sel nearBump_def farBump_def)

lemma features_one_region:
  "extractFeatures d (regOne nearBump) 0 =
     (fst (extractRegion 0 1 4 (setScanBuffersFor (regOne nearBump) 0 6, [])))
       \<lparr>surfacePointsLessFlat :=
          surfacePointsLessFlat (fst (extractRegion 0 1 4 (setScanBuffersFor (regOne nearBump) 0 6, [])))
            @ d (lessFlatFilterSize
                   (params (fst (extractRegion 0 1 4 (setScanBuffersFor (regOne nearBump) 0 6, [])))))
                (snd (extractRegion 0 1 4 (setScanBuffersFor (regOne nearBump) 0 6, [])))\<rparr>"
  "extractFeatures d (regOne farBump) 0 =
     (fst (extractRegion 0 1 4 (setScanBuffersFor (regOne farBump) 0 6, [])))
       \<lparr>surfacePointsLessFlat :=
          surfacePointsLessFlat (fst (extractRegion 0 1 4 (setScanBuffersFor (regOne farBump) 0 6, [])))
            @ d (lessFlatFilterSize
                   (params (fst (extractRegion 0 1 4 (setScanBuffersFor (regOne farBump) 0 6, [])))))
                (snd (extractRegion 0 1 4 (setScanBuffersFor (regOne farBump) 0 6, [])))\<rparr>"
  unfolding extractFeatures_one_scan [OF regOne_scan(1)] extractFeatures_one_scan [OF regOne_scan(2)]
  by (rule extractScan_one_region; simp add: regOne_sel regOne_region)+

lemma nearBump_no_candidate:
  "cornerPicks 0 1 4 (setRegionBuffersFor (setScanBuffersFor (regOne nearBump) 0 6) 1 4) 0 = []"
proof (rule cornerPicks_no_candidate)
  let ?st1 = "setRegionBuffersFor (setScanBuffersFor (regOne nearBump) 0 6) 1 4"
  have len: "length (regionSortIndices ?st1) = 4"
    using setRegionBuffersFor_indices(3) [of "setScanBuffersFor (regOne nearBump) 0 6" 1 4]
    by simp
  then show "4 \<le> length (regionSortIndices ?st1)" by simp
  have s: "set (regionSortIndices ?st1) = {1 ..< 1 + (4 - 1 + 1)}"
    by (rule setRegionBuffersFor_indices)
  have fl: "scanNeighborPicked ?st1 = [0, 1, 1, 1, 1, 0, 0]"
    unfolding setRegionBuffersFor_frame setScanBuffersFor_frame regOne_sel nearBump_flags ..
  show "\<forall>idx \<in> set (take 4 (regionSortIndices ?st1)). \<not> cornerCandidate 0 1 ?st1 idx"
  proof
    fix idx assume "idx \<in> set (take 4 (regionSortIndices ?st1))"
    with len have "idx \<in> set (regionSortIndices ?st1)" by simp
    then have "idx = Suc 0 \<or> idx = 2 \<or> idx = 3 \<or> idx = 4"
      unfolding s region14 .
    then show "\<not> cornerCandidate 0 1 ?st1 idx"
      unfolding cornerCandidate_def fl by auto
  qed
qed

lemma farSt_sel:
  "scanNeighborPicked (setScanBuffersFor (regOne farBump) 0 6) = [0, 0, 0, 0, 0, 0, 0]"
  "params (setScanBuffersFor (regOne farBump) 0 6) = params (regOne farBump)"
  "laserCloud (setScanBuffersFor (regOne farBump) 0 6) = farBump"
  unfolding setScanBuffersFor_frame regOne_sel farBump_flags by (rule refl)+

lemma farBump_threshold:
  "surfaceCurvatureThreshold (params (regOne farBump)) < curvatureAt 1 farBump 3"
  "idx \<in> {1 ..< 1 + (4 - 1 + 1)} \<Longrightarrow> idx \<noteq> 3 \<Longrightarrow>
     \<not> surfaceCurvatureThreshold (params (regOne farBump)) < curvatureAt 1 farBump idx"
  unfolding region14 using farBump_curvature by (auto simp: regOne_sel)

lemma farBump_single:
  "cornerPicks 0 1 4 (setRegionBuffersFor (setScanBuffersFor (regOne farBump) 0 6) 1 4) 0 = [3]"
proof (rule cornerPicks_single)
  let ?st = "setScanBuffersFor (regOne farBump) 0 6"
  let ?st1 = "setRegionBuffersFor ?st 1 4"
  have len: "length (regionSortIndices ?st1) = 4"
    using setRegionBuffersFor_indices(3) [of ?st 1 4] by simp
  then show "4 \<le> length (regionSortIndices ?st1)" by simp
  from len have t: "take 4 (regionSortIndices ?st1) = regionSortIndices ?st1" by simp
  have s: "set (regionSortIndices ?st1) = {1 ..< 1 + (4 - 1 + 1)}"
    by (rule setRegionBuffersFor_indices)
  show "distinct (take 4 (regionSortIndices ?st1))"
    unfolding t by (rule setRegionBuffersFor_indices)
  show "3 \<in> set (take 4 (regionSortIndices ?st1))"
    unfolding t s by simp
  have rc: "regionCurvature ?st1 ! (idx - 1) = curvatureAt 1 farBump idx"
    if "idx \<in> {1 ..< 1 + (4 - 1 + 1)}" for idx
    using region_curvature [OF that, of ?st] unfolding farSt_sel regOne_sel .
  have pr: "params ?st1 = params (regOne farBump)"
    "scanNeighborPicked ?st1 = [0, 0, 0, 0, 0, 0, 0]"
    unfolding setRegionBuffersFor_frame farSt_sel by (rule refl)+
  show "\<forall>idx \<in> set (take 4 (regionSortIndices ?st1)). idx \<noteq> 3 \<longrightarrow>
      \<not> regionCurvature ?st1 ! (idx - 1) > surfaceCurvatureThreshold (params ?st1)"
    unfolding t s pr using rc farBump_threshold(2) by simp
  have "3 \<in> {1 ..< 1 + (4 - 1 + 1::nat)}" by simp
  from rc [OF this] farBump_threshold(1) show "cornerCandidate 0 1 ?st1 3"
    unfolding cornerCandidate_def pr by simp
  show "0 < maxCornerLessSharp (params ?st1)"
    unfolding pr by (simp add: regOne_sel)
qed

lemma farBump_clouds:
  "cornerPointsSharp (fst (extractRegion 0 1 4 (setScanBuffersFor (regOne farBump) 0 6, [])))
     = [farBump ! 3]"
  "cornerPointsLessSharp (fst (extractRegion 0 1 4 (setScanBuffersFor (regOne farBump) 0 6, [])))
     = [farBump ! 3]"
  "regionLabel (fst (extractRegion 0 1 4 (setScanBuffersFor (regOne farBump) 0 6, []))) ! (3 - 1)
     = CORNER_SHARP"
proof -
  let ?st = "setScanBuffersFor (regOne farBump) 0 6"
  have h: "(0::nat) \<le> 1" "(1::nat) \<le> 4" "4 - 0 < length (scanNeighborPicked ?st)"
    by (simp_all add: farSt_sel)
  have n: "4 - 1 + 1 = (4::nat)" by simp
  note f = region_cloud_facts [where lf = "[]", OF h refl refl refl refl refl refl
      prod.collapse [symmetric] refl, unfolded n farBump_single]
  have t: "take (nat (maxCornerSharp (params ?st))) [3::nat] = [3]"
    unfolding farSt_sel by (simp add: regOne_sel)
  from f(1) show "cornerPointsSharp (fst (extractRegion 0 1 4 (?st, []))) = [farBump ! 3]"
    unfolding t farSt_sel by (simp add: setScanBuffersFor_frame regOne_sel)
  from f(2) show "cornerPointsLessSharp (fst (extractRegion 0 1 4 (?st, []))) = [farBump ! 3]"
    unfolding farSt_sel by (simp add: setScanBuffersFor_frame regOne_sel)
  from f(3) show "regionLabel (fst (extractRegion 0 1 4 (?st, []))) ! (3 - 1) = CORNER_SHARP"
    unfolding t by simp
qed

lemma regFine_sel:
  "curvatureRegion (params (regFine cloud)) = 1"
  "nFeatureRegions (params (regFine cloud)) = 1"
  "maxCornerSharp (params (regFine cloud)) = 2"
  "maxCornerLessSharp (params (regFine cloud)) = 20"
  "surfaceCurvatureThreshold (params (regFine cloud)) = 1 / 50"
  "laserCloud (regFine cloud) = cloud"
  "cornerPointsSharp (regFine cloud) = []"
  "cornerPointsLessSharp (regFine cloud) = []"
  by (simp_all add: regFine_def reg0_def defaultParams_def)

lemma beside_gaps:
  "calcSquaredDiff (besideRay a y) (besideRay b z) = (a - b) * (a - b) + (y - z) * (y - z)"
  "calcSquaredPointDistance (besideRay a y) = a * a + y * y"
  by (simp_all add: calcSquaredDiff_def calcSquaredPointDistance_def besideRay_def)

lemma twinBump_conds:
  "\<not> occludedBefore twinBump (Suc 0)" "\<not> occludedAfter twinBump (Suc 0)"
  "\<not> gapsExceed twinBump (Suc 0)"
  "\<not> occludedBefore twinBump 2" "\<not> occludedAfter twinBump 2" "\<not> gapsExceed twinBump 2"
  "\<not> occludedBefore twinBump 3" "\<not> occludedAfter twinBump 3" "\<not> gapsExceed twinBump 3"
  "\<not> occludedBefore twinBump 4" "\<not> occludedAfter twinBump 4" "\<not> gapsExceed twinBump 4"
  by (simp_all add: occludedBefore_def occludedAfter_def gapsExceed_def twinBump_def beside_gaps
      Let_def)

lemma twinBump_flags: "scanFlags 1 twinBump 0 6 = [0, 0, 0, 0, 0, 0, 0]"
  unfolding scanFlags_def upt15 rep7 by (simp add: scanStep_def twinBump_conds)

lemma twinBump_curvature:
  "curvatureAt 1 twinBump (Suc 0) = 1 / 25" "curvatureAt 1 twinBump 2 = 1 / 16"
  "curvatureAt 1 twinBump 3 = 9 / 100" "curvatureAt 1 twinBump 4 = 9 / 400"
  unfolding curvatureAt_1 by (simp_all add: twinBump_def besideRay_def)

lemma twinSt_sel:
  "scanNeighborPicked (setScanBuffersFor (regFine twinBump) 0 6) = [0, 0, 0, 0, 0, 0, 0]"
  "params (setScanBuffersFor (regFine twinBump) 0 6) = params (regFine twinBump)"
  "laserCloud (setScanBuffersFor (regFine twinBump) 0 6) = twinBump"
  unfolding setScanBuffersFor_frame regFine_sel twinBump_flags by (rule refl)+

lemma upt15b: "[1 ..< 1 + (4 - 1 + 1)] = [1, 2, 3, 4::nat]"
  by (simp add: upt_rec)

lemma twin_curv_list:
  "map (curvatureAt 1 twinBump) [1, 2, 3, 4] = [1 / 25, 1 / 16, 9 / 100, 9 / 400]"
  unfolding curvatureAt_1 by (simp add: twinBump_def besideRay_def)

lemma twin_curv:
  "regionCurvature (setRegionBuffersFor (setScanBuffersFor (regFine twinBump) 0 6) 1 4)
     = [1 / 25, 1 / 16, 9 / 100, 9 / 400]"
  unfolding setRegionBuffersFor_frame twinSt_sel regFine_sel upt15b twin_curv_list ..

lemma twin_sorted:
  "regionSortIndices (setRegionBuffersFor (setScanBuffersFor (regFine twinBump) 0 6) 1 4)
     = [4, 1, 2, 3]"
proof -
  note c = twin_curv_list
  have u: "[1 ..< length [1, 2, 3, 4::nat]] = [1, 2, 3]" by (simp add: upt_rec)
  show ?thesis
    unfolding setRegionBuffersFor_def Let_def twinSt_sel regFine_sel upt15b c sortRegion_def u
    by (simp add: numeral_3_eq_3 numeral_2_eq_2)
qed

lemma cornerPicks_pick:
  assumes "n < maxCornerLessSharp (params st)"
    and "regionSortIndices st ! k = idx" and "cornerCandidate ss sp st idx"
  shows "cornerPicks ss sp (Suc k) st n
           = idx # cornerPicks ss sp k (selectCorner ss sp st idx (n + 1)) (n + 1)"
  using assms by (simp add: Let_def)

lemma cornerPicks_skip:
  assumes "regionSortIndices st ! k = idx" and "\<not> cornerCandidate ss sp st idx"
  shows "cornerPicks ss sp (Suc k) st n = (if n < maxCornerLessSharp (params st)
           then cornerPicks ss sp k st n else [])"
  using assms by (simp add: Let_def)

lemma selectCorner_flags_cr1:
  assumes "curvatureRegion (params st) = 1"
  shows "scanNeighborPicked (selectCorner ss sp st idx n) =
     (let p0 = (scanNeighborPicked st)[idx - ss := 1];
          p1 = (if calcSquaredDiff (laserCloud st ! (idx + 1)) (laserCloud st ! idx) > 0.05
                then p0 else p0[idx - ss + 1 := 1])
      in if calcSquaredDiff (laserCloud st ! (idx - 1)) (laserCloud st ! (idx - 1 + 1)) > 0.05
         then p1 else p1[idx - ss - 1 := 1])"
  using assms by (simp add: selectCorner_def markAsPicked_def Let_def)

lemma twin_st1:
  "params (setRegionBuffersFor (setScanBuffersFor (regFine twinBump) 0 6) 1 4)
     = params (regFine twinBump)"
  "laserCloud (setRegionBuffersFor (setScanBuffersFor (regFine twinBump) 0 6) 1 4) = twinBump"
  "scanNeighborPicked (setRegionBuffersFor (setScanBuffersFor (regFine twinBump) 0 6) 1 4)
     = [0, 0, 0, 0, 0, 0, 0]"
  unfolding setRegionBuffersFor_frame twinSt_sel by (rule refl)+

lemma twin_gaps:
  "\<not> calcSquaredDiff (twinBump ! 4) (twinBump ! 3) > 0.05"
  "\<not> calcSquaredDiff (twinBump ! 2) (twinBump ! 3) > 0.05"
  "\<not> calcSquaredDiff (twinBump ! 2) (twinBump ! 1) > 0.05"
  "\<not> calcSquaredDiff (twinBump ! 0) (twinBump ! 1) > 0.05"
  by (simp_all add: twinBump_def beside_gaps)

lemma twin_picks:
  "cornerPicks 0 1 4 (setRegionBuffersFor (setScanBuffersFor (regFine twinBump) 0 6) 1 4) 0
     = [3, 1]"
proof -
  define st1 where "st1 = setRegionBuffersFor (setScanBuffersFor (regFine twinBump) 0 6) 1 4"
  define stA where "stA = selectCorner 0 1 st1 3 (0 + 1)"
  define stB where "stB = selectCorner 0 1 stA 1 (0 + 1 + 1)"
  note s1 = twin_st1 [folded st1_def] twin_sorted [folded st1_def] twin_curv [folded st1_def]
  have pA: "params stA = params (regFine twinBump)" "laserCloud stA = twinBump"
    "regionSortIndices stA = [4, 1, 2, 3]"
    "regionCurvature stA = [1 / 25, 1 / 16, 9 / 100, 9 / 400]"
    unfolding stA_def selectCorner_frame s1 by (rule refl)+
  have c1: "curvatureRegion (params st1) = 1" unfolding s1 by (rule regFine_sel)
  have fA: "scanNeighborPicked stA = [0, 0, 1, 1, 1, 0, 0]"
    unfolding stA_def selectCorner_flags_cr1 [OF c1] s1 Let_def
    using twin_gaps by simp
  have cA: "curvatureRegion (params stA) = 1" unfolding pA by (rule regFine_sel)
  have pB: "params stB = params (regFine twinBump)"
    unfolding stB_def selectCorner_frame pA by (rule refl)
  have k4: "cornerPicks 0 1 (Suc 3) st1 0 = 3 # cornerPicks 0 1 3 stA (0 + 1)"
    unfolding stA_def
    by (rule cornerPicks_pick) (simp_all add: s1 regFine_sel cornerCandidate_def)
  have k3: "cornerPicks 0 1 (Suc 2) stA (0 + 1) = cornerPicks 0 1 2 stA (0 + 1)"
    by (subst cornerPicks_skip [of stA 2 2])
      (simp_all add: pA fA regFine_sel cornerCandidate_def)
  have k2: "cornerPicks 0 1 (Suc 1) stA (0 + 1) = 1 # cornerPicks 0 1 1 stB (0 + 1 + 1)"
    unfolding stB_def
    by (rule cornerPicks_pick) (simp_all add: pA fA regFine_sel cornerCandidate_def)
  have fB: "scanNeighborPicked stB = [1, 1, 1, 1, 1, 0, 0]"
    unfolding stB_def selectCorner_flags_cr1 [OF cA] pA fA Let_def
    using twin_gaps by simp
  have rB: "regionSortIndices stB = [4, 1, 2, 3]"
    unfolding stB_def selectCorner_frame pA by (rule refl)
  have k1: "cornerPicks 0 1 (Suc 0) stB (0 + 1 + 1) = []"
    by (subst cornerPicks_skip [of stB 0 4])
      (simp_all add: pB fB rB regFine_sel cornerCandidate_def)
  have n: "(4::nat) = Suc 3" "(3::nat) = Suc 2" "(2::nat) = Suc 1" "(1::nat) = Suc 0"
    by simp_all
  have "cornerPicks 0 1 4 st1 0 = 3 # cornerPicks 0 1 3 stA (0 + 1)"
    using k4 by (simp only: n(1) [symmetric])
  also have "cornerPicks 0 1 3 stA (0 + 1) = cornerPicks 0 1 2 stA (0 + 1)"
    using k3 by (simp only: n(2) [symmetric])
  also have "cornerPicks 0 1 2 stA (0 + 1) = 1 # cornerPicks 0 1 1 stB (0 + 1 + 1)"
    using k2 by (simp only: n(3) [symmetric])
  also have "cornerPicks 0 1 1 stB (0 + 1 + 1) = []"
    using k1 by (simp only: n(4) [symmetric])
  finally show ?thesis unfolding st1_def .
qed

section \<open>Corner selection in one region: a point that is already picked\<close>

text \<open>
  C2, refuted as stated.  The scan \<open>nearBump\<close> is a single scan of seven points with one
  feature region, the points \<open>1 .. 4\<close>.  Exactly one point of the region, point \<open>3\<close>, has
  a curvature above the threshold \<open>0.1\<close>, and both corner quotas are positive.  The
  pre-pass of the scan has marked the points \<open>1 .. 4\<close> as picked, because their neighbour
  gaps are large relative to their range; the corner loop therefore selects no point, and
  feature extraction produces no sharp corner.
\<close>

theorem single_candidate_already_picked:
  "scanIndices (regOne nearBump) = [(0, 6)]
   \<and> regionStart (params (regOne nearBump)) 0 6 0 = 1
   \<and> regionEnd (params (regOne nearBump)) 0 6 0 = 4
   \<and> map (curvatureAt (curvatureRegion (params (regOne nearBump))) nearBump) [1, 2, 3, 4]
       = [0, 1 / 25, 4 / 25, 1 / 25]
   \<and> surfaceCurvatureThreshold (params (regOne nearBump)) = 1 / 10
   \<and> maxCornerSharp (params (regOne nearBump)) = 2
   \<and> maxCornerLessSharp (params (regOne nearBump)) = 20
   \<and> scanNeighborPicked (setScanBuffersFor (regOne nearBump) 0 6) = [0, 1, 1, 1, 1, 0, 0]
   \<and> cornerPicks 0 1 4 (setRegionBuffersFor (setScanBuffersFor (regOne nearBump) 0 6) 1 4) 0 = []
   \<and> cornerPointsSharp (extractFeatures keepAll (regOne nearBump) 0) = []"
proof -
  let ?st = "setScanBuffersFor (regOne nearBump) 0 6"
  have a: "map (curvatureAt (curvatureRegion (params (regOne nearBump))) nearBump) [1, 2, 3, 4]
       = [0, 1 / 25, 4 / 25, 1 / 25]"
    using nearBump_curvature by (simp add: regOne_sel)
  have b: "scanNeighborPicked ?st = [0, 1, 1, 1, 1, 0, 0]"
    unfolding setScanBuffersFor_frame regOne_sel nearBump_flags ..
  have "cornerPointsSharp (extractFeatures keepAll (regOne nearBump) 0)
      = cornerPointsSharp (fst (extractRegion 0 1 4 (?st, [])))"
    unfolding features_one_region by simp
  also have "\<dots> = cornerPointsSharp (fst (cornerLoop 0 1 4 (setRegionBuffersFor ?st 1 4) 0))"
    unfolding extractRegion_eq using flatLoop_frame by simp
  also have "\<dots> = []"
    using cornerLoop_clouds [of 0 1 4 "setRegionBuffersFor ?st 1 4" 0]
    unfolding nearBump_no_candidate
    by (simp add: setRegionBuffersFor_frame setScanBuffersFor_frame regOne_sel)
  finally have c: "cornerPointsSharp (extractFeatures keepAll (regOne nearBump) 0) = []" .
  from regOne_scan(1) regOne_region [of nearBump] a regOne_sel(6,3,4) [of nearBump] b
    nearBump_no_candidate c
  show ?thesis by blast
qed

section \<open>Corner selection in one region: results\<close>

text \<open>
  C2, amended.  Let a feature region \<open>sp .. ep\<close> of a scan that starts at \<open>ss\<close> be processed
  from the state \<open>st\<close>: the region buffers are set and the corner loop runs.  The loop
  visits the points of the region in the order of descending curvature, and the selected
  points \<open>S\<close> are a subsequence of that order without repetition.  Every selected point
  was not yet picked when the region was entered and has a curvature strictly above the
  threshold, and no selected point is a neighbour that \<open>markAsPicked\<close> marks for a point
  selected before it (a point at most \<open>curvatureRegion\<close> positions away with no two
  consecutive points between them more than \<open>0.05\<close> apart, squared); at most
  \<open>maxCornerLessSharp\<close> points are selected; the points labelled sharp are the first
  \<open>maxCornerSharp\<close> selected points, the points labelled less sharp are the remaining
  selected points, so at most \<open>maxCornerSharp\<close> points are labelled sharp.  In a region
  with exactly one point of curvature above the threshold, if that point is not yet picked
  and both quotas are at least one, that point is the only selected point and exactly one
  sharp corner is added to the sharp cloud.
\<close>

theorem corner_quota:
  assumes ss: "ss \<le> sp" and se: "sp \<le> ep"
    and fl: "ep - ss < length (scanNeighborPicked st)"
    and st1_def: "st1 = setRegionBuffersFor st sp ep"
    and n_def: "n = ep - sp + 1"
    and visited_def: "visited = rev (regionSortIndices st1)"
    and S_def: "S = cornerPicks ss sp n st1 0"
    and st2_def: "st2 = fst (cornerLoop ss sp n st1 0)"
    and m_def: "m = nat (maxCornerSharp (params st))"
    and curv_def: "curv = curvatureAt (curvatureRegion (params st)) (laserCloud st)"
    and thr_def: "thr = surfaceCurvatureThreshold (params st)"
  shows "set visited = {sp ..< sp + n}
          \<and> sorted_wrt (\<lambda>a b. curv b \<le> curv a) visited
          \<and> subseq S visited \<and> distinct S
          \<and> (\<forall>idx \<in> set S. scanNeighborPicked st ! (idx - ss) = 0 \<and> thr < curv idx)
          \<and> (\<forall>a b. a < b \<and> b < length S \<longrightarrow>
                \<not> pickedNeighbour (curvatureRegion (params st)) (laserCloud st) (S ! a) (S ! b))
          \<and> int (length S) \<le> max 0 (maxCornerLessSharp (params st))
          \<and> {idx \<in> {sp ..< sp + n}. regionLabel st2 ! (idx - sp) = CORNER_SHARP} = set (take m S)
          \<and> {idx \<in> {sp ..< sp + n}. regionLabel st2 ! (idx - sp) = CORNER_LESS_SHARP}
               = set (drop m S)
          \<and> int (length (take m S)) \<le> max 0 (maxCornerSharp (params st))
          \<and> (\<forall>idx0 \<in> {sp ..< sp + n}.
                scanNeighborPicked st ! (idx0 - ss) = 0 \<and> thr < curv idx0
                \<and> (\<forall>idx \<in> {sp ..< sp + n}. idx \<noteq> idx0 \<longrightarrow> \<not> thr < curv idx)
                \<and> 1 \<le> maxCornerSharp (params st) \<and> 1 \<le> maxCornerLessSharp (params st)
                \<longrightarrow> S = [idx0] \<and> take m S = [idx0]
                    \<and> cornerPointsSharp st2 = cornerPointsSharp st @ [laserCloud st ! idx0])"
proof -
  note f = region_corner_facts [OF ss se fl, folded st1_def n_def, folded S_def st2_def m_def]
  have vis: "set (rev (regionSortIndices st1)) = {sp ..< sp + n}"
    and srt: "sorted_wrt (\<lambda>a b. curv b \<le> curv a) (rev (regionSortIndices st1))"
    unfolding st1_def n_def curv_def by (rule region_order)+
  have inr: "sp \<le> idx \<and> idx < sp + n" if "idx \<in> set S" for idx
    using f(3) that by auto
  have cand: "scanNeighborPicked st ! (idx - ss) = 0 \<and> thr < curv idx" if "idx \<in> set S" for idx
  proof -
    from f(4) that have cc: "cornerCandidate ss sp st1 idx" by simp
    from inr [OF that] have "idx \<in> {sp ..< sp + (ep - sp + 1)}"
      unfolding n_def by simp
    then have rc: "regionCurvature st1 ! (idx - sp) = curv idx"
      unfolding st1_def curv_def by (rule region_curvature)
    have pf: "scanNeighborPicked st1 = scanNeighborPicked st" "params st1 = params st"
      unfolding st1_def by (rule setRegionBuffersFor_frame)+
    from cc show ?thesis
      unfolding cornerCandidate_def rc pf thr_def by simp
  qed
  have td: "set (take m S) \<inter> set (drop m S) = {}"
    using f(2) by (metis append_take_drop_id distinct_append)
  have img: "idx - sp \<in> (\<lambda>i. i - sp) ` set T \<longleftrightarrow> idx \<in> set T"
    if "sp \<le> idx" "set T \<subseteq> set S" for idx T
  proof
    assume "idx - sp \<in> (\<lambda>i. i - sp) ` set T"
    then obtain i where i: "i \<in> set T" "idx - sp = i - sp" by blast
    from i(1) that(2) have "i \<in> set S" by blast
    from inr [OF this] have "sp \<le> i" by simp
    from minus_inj_from [OF that(1) this i(2)] i(1) show "idx \<in> set T" by simp
  next
    assume "idx \<in> set T"
    then show "idx - sp \<in> (\<lambda>i. i - sp) ` set T" by (rule imageI)
  qed
  have lab: "regionLabel st2 ! r =
           (if r \<in> (\<lambda>i. i - sp) ` set (take m S) then CORNER_SHARP
            else if r \<in> (\<lambda>i. i - sp) ` set (drop m S) then CORNER_LESS_SHARP
            else SURFACE_LESS_FLAT)" if "r < n" for r
    using f(8) that by blast
  have sharp: "{idx \<in> {sp ..< sp + n}. regionLabel st2 ! (idx - sp) = CORNER_SHARP} = set (take m S)"
  proof (intro set_eqI iffI)
    fix idx assume "idx \<in> {idx \<in> {sp ..< sp + n}. regionLabel st2 ! (idx - sp) = CORNER_SHARP}"
    then have r: "sp \<le> idx" "idx - sp < n" and l: "regionLabel st2 ! (idx - sp) = CORNER_SHARP"
      by (simp_all add: less_diff_conv2)
    from lab [OF r(2)] l have "idx - sp \<in> (\<lambda>i. i - sp) ` set (take m S)"
      by (simp split: if_splits)
    moreover have "set (take m S) \<subseteq> set S" by (rule set_take_subset)
    ultimately show "idx \<in> set (take m S)"
      using img [OF r(1), of "take m S"] by simp
  next
    fix idx assume a: "idx \<in> set (take m S)"
    then have s: "idx \<in> set S" by (rule in_set_takeD)
    from inr [OF s] have r: "sp \<le> idx" "idx < sp + n" "idx - sp < n"
      by (simp_all add: less_diff_conv2)
    from a have "idx - sp \<in> (\<lambda>i. i - sp) ` set (take m S)" by (rule imageI)
    with lab [OF r(3)] have "regionLabel st2 ! (idx - sp) = CORNER_SHARP" by simp
    with r show "idx \<in> {idx \<in> {sp ..< sp + n}. regionLabel st2 ! (idx - sp) = CORNER_SHARP}"
      by simp
  qed
  have less: "{idx \<in> {sp ..< sp + n}. regionLabel st2 ! (idx - sp) = CORNER_LESS_SHARP}
                = set (drop m S)"
  proof (intro set_eqI iffI)
    fix idx
    assume "idx \<in> {idx \<in> {sp ..< sp + n}. regionLabel st2 ! (idx - sp) = CORNER_LESS_SHARP}"
    then have r: "sp \<le> idx" "idx - sp < n"
      and l: "regionLabel st2 ! (idx - sp) = CORNER_LESS_SHARP"
      by (simp_all add: less_diff_conv2)
    from lab [OF r(2)] l have "idx - sp \<in> (\<lambda>i. i - sp) ` set (drop m S)"
      by (simp split: if_splits)
    moreover have "set (drop m S) \<subseteq> set S" by (rule set_drop_subset)
    ultimately show "idx \<in> set (drop m S)"
      using img [OF r(1), of "drop m S"] by simp
  next
    fix idx assume a: "idx \<in> set (drop m S)"
    then have s: "idx \<in> set S" by (rule in_set_dropD)
    from inr [OF s] have r: "sp \<le> idx" "idx < sp + n" "idx - sp < n"
      by (simp_all add: less_diff_conv2)
    from a td have "idx \<notin> set (take m S)" by blast
    moreover have "set (take m S) \<subseteq> set S" by (rule set_take_subset)
    ultimately have nt: "idx - sp \<notin> (\<lambda>i. i - sp) ` set (take m S)"
      using img [OF r(1), of "take m S"] by simp
    from a have "idx - sp \<in> (\<lambda>i. i - sp) ` set (drop m S)" by (rule imageI)
    with lab [OF r(3)] nt have "regionLabel st2 ! (idx - sp) = CORNER_LESS_SHARP" by simp
    with r show
      "idx \<in> {idx \<in> {sp ..< sp + n}. regionLabel st2 ! (idx - sp) = CORNER_LESS_SHARP}"
      by simp
  qed
  have quota: "int (length (take m S)) \<le> max 0 (maxCornerSharp (params st))"
    unfolding m_def by simp
  have single: "S = [idx0] \<and> take m S = [idx0]
                    \<and> cornerPointsSharp st2 = cornerPointsSharp st @ [laserCloud st ! idx0]"
    if i0: "idx0 \<in> {sp ..< sp + n}"
      and c0: "scanNeighborPicked st ! (idx0 - ss) = 0" "thr < curv idx0"
      and others: "\<forall>idx \<in> {sp ..< sp + n}. idx \<noteq> idx0 \<longrightarrow> \<not> thr < curv idx"
      and q: "1 \<le> maxCornerSharp (params st)" "1 \<le> maxCornerLessSharp (params st)"
    for idx0
  proof -
    have len: "n \<le> length (regionSortIndices st1)"
      "take n (regionSortIndices st1) = regionSortIndices st1"
      unfolding st1_def n_def by (simp_all add: setRegionBuffersFor_indices)
    have rng: "set (regionSortIndices st1) = {sp ..< sp + n}"
      unfolding st1_def n_def by (rule setRegionBuffersFor_indices)
    have d: "distinct (take n (regionSortIndices st1))"
      unfolding len(2) unfolding st1_def by (rule setRegionBuffersFor_indices)
    have m0: "idx0 \<in> set (take n (regionSortIndices st1))"
      unfolding len(2) rng by (rule i0)
    have rc: "regionCurvature st1 ! (idx - sp) = curv idx" if "idx \<in> {sp ..< sp + n}" for idx
      using that unfolding st1_def curv_def n_def by (rule region_curvature)
    have pf: "scanNeighborPicked st1 = scanNeighborPicked st" "params st1 = params st"
      unfolding st1_def by (rule setRegionBuffersFor_frame)+
    have o: "\<forall>idx \<in> set (take n (regionSortIndices st1)). idx \<noteq> idx0 \<longrightarrow>
           \<not> regionCurvature st1 ! (idx - sp) > surfaceCurvatureThreshold (params st1)"
      unfolding len(2) rng pf using others rc unfolding thr_def by simp
    have c: "cornerCandidate ss sp st1 idx0"
      unfolding cornerCandidate_def rc [OF i0] pf using c0 unfolding thr_def by simp
    have l: "0 < maxCornerLessSharp (params st1)"
      unfolding pf using q by simp
    from cornerPicks_single [OF len(1) d m0 o c l] have S1: "S = [idx0]"
      unfolding S_def .
    from q have "0 < m" unfolding m_def by simp
    then have t: "take m S = [idx0]" unfolding S1 by (cases m) simp_all
    from f(7) t show ?thesis using S1 by simp
  qed
  have vis': "set visited = {sp ..< sp + n}"
    and srt': "sorted_wrt (\<lambda>a b. curv b \<le> curv a) visited"
    and sub': "subseq S visited"
    unfolding visited_def using vis srt f(1) by blast+
  have cand': "\<forall>idx \<in> set S. scanNeighborPicked st ! (idx - ss) = 0 \<and> thr < curv idx"
    using cand by blast
  have single': "\<forall>idx0 \<in> {sp ..< sp + n}.
                scanNeighborPicked st ! (idx0 - ss) = 0 \<and> thr < curv idx0
                \<and> (\<forall>idx \<in> {sp ..< sp + n}. idx \<noteq> idx0 \<longrightarrow> \<not> thr < curv idx)
                \<and> 1 \<le> maxCornerSharp (params st) \<and> 1 \<le> maxCornerLessSharp (params st)
                \<longrightarrow> S = [idx0] \<and> take m S = [idx0]
                    \<and> cornerPointsSharp st2 = cornerPointsSharp st @ [laserCloud st ! idx0]"
  proof (intro ballI impI)
    fix idx0
    assume i0: "idx0 \<in> {sp ..< sp + n}"
      and h: "scanNeighborPicked st ! (idx0 - ss) = 0 \<and> thr < curv idx0
                \<and> (\<forall>idx \<in> {sp ..< sp + n}. idx \<noteq> idx0 \<longrightarrow> \<not> thr < curv idx)
                \<and> 1 \<le> maxCornerSharp (params st) \<and> 1 \<le> maxCornerLessSharp (params st)"
    from h have h1: "scanNeighborPicked st ! (idx0 - ss) = 0" and h2: "thr < curv idx0"
      and h3: "\<forall>idx \<in> {sp ..< sp + n}. idx \<noteq> idx0 \<longrightarrow> \<not> thr < curv idx"
      and h4: "1 \<le> maxCornerSharp (params st)" and h5: "1 \<le> maxCornerLessSharp (params st)"
      by blast+
    show "S = [idx0] \<and> take m S = [idx0]
                    \<and> cornerPointsSharp st2 = cornerPointsSharp st @ [laserCloud st ! idx0]"
      by (rule single [OF i0 h1 h2 h3 h4 h5])
  qed
  from vis' srt' sub' f(2) cand' f(10) f(5) sharp less quota single'
  show ?thesis by blast
qed

text \<open>
  Two regions.  In the scan \<open>farBump\<close> the region \<open>1 .. 4\<close> has a single point above the
  threshold, point \<open>3\<close>, which is selected.  In the scan \<open>twinBump\<close> with threshold \<open>0.02\<close>
  all four points of the region are above the threshold and none is picked at entry; the
  loop selects point \<open>3\<close>, skips its marked neighbours \<open>2\<close> and \<open>4\<close>, and selects point \<open>1\<close>.
\<close>

theorem corner_quota_witness:
  "(0::nat) \<le> 1 \<and> (1::nat) \<le> 4
   \<and> 4 - 0 < length (scanNeighborPicked (setScanBuffersFor (regOne farBump) 0 6))
   \<and> scanNeighborPicked (setScanBuffersFor (regOne farBump) 0 6) ! (3 - 0) = 0
   \<and> surfaceCurvatureThreshold (params (regOne farBump)) < curvatureAt 1 farBump 3
   \<and> cornerPicks 0 1 4 (setRegionBuffersFor (setScanBuffersFor (regOne farBump) 0 6) 1 4) 0 = [3]
   \<and> cornerPointsSharp
        (fst (cornerLoop 0 1 4 (setRegionBuffersFor (setScanBuffersFor (regOne farBump) 0 6) 1 4) 0))
       = [farBump ! 3]
   \<and> 4 - 0 < length (scanNeighborPicked (setScanBuffersFor (regFine twinBump) 0 6))
   \<and> cornerPicks 0 1 4 (setRegionBuffersFor (setScanBuffersFor (regFine twinBump) 0 6) 1 4) 0
       = [3, 1]
   \<and> scanNeighborPicked (setScanBuffersFor (regFine twinBump) 0 6) ! (2 - 0) = 0
   \<and> surfaceCurvatureThreshold (params (regFine twinBump)) < curvatureAt 1 twinBump 2
   \<and> pickedNeighbour 1 twinBump 3 2
   \<and> \<not> pickedNeighbour 1 twinBump 3 1"
proof -
  let ?st = "setScanBuffersFor (regOne farBump) 0 6"
  have h: "(0::nat) \<le> 1" "(1::nat) \<le> 4" "4 - 0 < length (scanNeighborPicked ?st)"
    by (simp_all add: farSt_sel)
  have n: "4 - 1 + 1 = (4::nat)" by simp
  have i: "3 \<in> {1 ..< 1 + (4::nat)}" by simp
  have p: "scanNeighborPicked ?st ! (3 - 0) = 0"
    by (simp add: farSt_sel)
  have q: "\<forall>idx \<in> {1 ..< 1 + 4}. idx \<noteq> 3 \<longrightarrow>
      \<not> surfaceCurvatureThreshold (params ?st)
          < curvatureAt (curvatureRegion (params ?st)) (laserCloud ?st) idx"
    unfolding farSt_sel regOne_sel(1) using farBump_threshold(2) [unfolded n] by blast
  have r: "surfaceCurvatureThreshold (params ?st)
          < curvatureAt (curvatureRegion (params ?st)) (laserCloud ?st) 3"
    unfolding farSt_sel regOne_sel(1) by (rule farBump_threshold)
  have m: "1 \<le> maxCornerSharp (params ?st)" "1 \<le> maxCornerLessSharp (params ?st)"
    unfolding farSt_sel by (simp_all add: regOne_sel)
  note c = corner_quota [OF h refl refl refl refl refl refl refl refl, unfolded n]
  note single = c [THEN conjunct2, THEN conjunct2, THEN conjunct2, THEN conjunct2,
      THEN conjunct2, THEN conjunct2, THEN conjunct2, THEN conjunct2, THEN conjunct2,
      THEN conjunct2, THEN bspec, OF i, THEN mp]
  have "cornerPicks 0 1 4 (setRegionBuffersFor ?st 1 4) 0 = [3]
      \<and> take (nat (maxCornerSharp (params ?st))) (cornerPicks 0 1 4 (setRegionBuffersFor ?st 1 4) 0) = [3]
      \<and> cornerPointsSharp (fst (cornerLoop 0 1 4 (setRegionBuffersFor ?st 1 4) 0))
          = cornerPointsSharp ?st @ [laserCloud ?st ! 3]"
    by (rule single) (intro conjI p r q m)
  then have far: "cornerPicks 0 1 4 (setRegionBuffersFor ?st 1 4) 0 = [3]"
    "cornerPointsSharp (fst (cornerLoop 0 1 4 (setRegionBuffersFor ?st 1 4) 0)) = [farBump ! 3]"
    unfolding farSt_sel by (simp_all add: setScanBuffersFor_frame regOne_sel)
  let ?tw = "setScanBuffersFor (regFine twinBump) 0 6"
  have ht: "4 - 0 < length (scanNeighborPicked ?tw)" by (simp add: twinSt_sel)
  note d = corner_quota [OF h(1,2) ht refl refl refl refl refl refl refl refl,
      unfolded n twin_picks twinSt_sel regFine_sel(1)]
  note apart = d [THEN conjunct2, THEN conjunct2, THEN conjunct2, THEN conjunct2,
      THEN conjunct2, THEN conjunct1, THEN spec, THEN spec, THEN mp]
  have "\<not> pickedNeighbour 1 twinBump ([3, 1] ! 0) ([3, 1] ! 1)"
    by (rule apart) simp
  then have tw1: "\<not> pickedNeighbour 1 twinBump 3 1" by simp
  have tw2: "scanNeighborPicked ?tw ! (2 - 0) = 0" by (simp add: twinSt_sel)
  have tw3: "surfaceCurvatureThreshold (params (regFine twinBump)) < curvatureAt 1 twinBump 2"
    unfolding regFine_sel twinBump_curvature by simp
  have tw4: "pickedNeighbour 1 twinBump 3 2"
    unfolding pickedNeighbour_def using twin_gaps(2) by simp
  from h p farBump_threshold(1) far ht twin_picks tw2 tw3 tw4 tw1 show ?thesis by blast
qed

section \<open>The output clouds of one region\<close>

text \<open>
  C10, refuted as stated.  The scan \<open>farBump\<close> is a single scan of seven points with one
  feature region, the points \<open>1 .. 4\<close>.  Feature extraction labels point \<open>3\<close> as a sharp
  corner and adds it to the sharp corner cloud and also to the less sharp corner cloud,
  whose label it does not carry.
\<close>

theorem sharp_point_in_both_clouds:
  "scanIndices (regOne farBump) = [(0, 6)]
   \<and> regionStart (params (regOne farBump)) 0 6 0 = 1
   \<and> regionEnd (params (regOne farBump)) 0 6 0 = 4
   \<and> regionLabel (extractFeatures keepAll (regOne farBump) 0) ! (3 - 1) = CORNER_SHARP
   \<and> cornerPointsSharp (extractFeatures keepAll (regOne farBump) 0) = [farBump ! 3]
   \<and> cornerPointsLessSharp (extractFeatures keepAll (regOne farBump) 0) = [farBump ! 3]"
  unfolding features_one_region
  using regOne_scan(2) regOne_region [of farBump] farBump_clouds by simp

text \<open>
  C10, amended.  Let a feature region \<open>sp .. ep\<close> of a scan that starts at \<open>ss\<close> be processed
  from the state \<open>st\<close> with the less flat points \<open>lf\<close> of the scan so far, let \<open>S\<close> be the
  points that the corner loop selects, in the order of selection, and let \<open>m\<close> be
  \<open>maxCornerSharp\<close>.  The first \<open>m\<close> selected points are labelled sharp and the remaining
  selected points are labelled less sharp, and no point is both.  The sharp corner cloud
  receives exactly the points labelled sharp; the less sharp corner cloud receives every
  selected point, the ones labelled sharp as well as the ones labelled less sharp.  The flat
  surface cloud receives the points \<open>F\<close> that the flat loop selects and the less flat points
  of the scan receive the points \<open>L\<close> of the region whose label is at most less flat; no
  selected corner point is among \<open>F\<close> or \<open>L\<close>.
\<close>

theorem corner_clouds:
  assumes ss: "ss \<le> sp" and se: "sp \<le> ep"
    and fl: "ep - ss < length (scanNeighborPicked st)"
    and st1_def: "st1 = setRegionBuffersFor st sp ep"
    and n_def: "n = ep - sp + 1"
    and S_def: "S = cornerPicks ss sp n st1 0"
    and st2_def: "st2 = fst (cornerLoop ss sp n st1 0)"
    and F_def: "F = flatPicks n ss sp 0 st2 0"
    and m_def: "m = nat (maxCornerSharp (params st))"
    and res: "extractRegion ss sp ep (st, lf) = (st3, lf')"
    and L_def: "L = lessFlatIndices st3 sp n"
  shows "cornerPointsSharp st3 = cornerPointsSharp st @ map ((!) (laserCloud st)) (take m S)
       \<and> cornerPointsLessSharp st3 = cornerPointsLessSharp st @ map ((!) (laserCloud st)) S
       \<and> (\<forall>idx \<in> set (take m S). regionLabel st3 ! (idx - sp) = CORNER_SHARP)
       \<and> (\<forall>idx \<in> set (drop m S). regionLabel st3 ! (idx - sp) = CORNER_LESS_SHARP)
       \<and> set (take m S) \<inter> set (drop m S) = {}
       \<and> surfacePointsFlat st3 = surfacePointsFlat st @ map ((!) (laserCloud st)) F
       \<and> set F \<inter> set S = {}
       \<and> lf' = lf @ map ((!) (laserCloud st)) L
       \<and> set L \<inter> set S = {}"
  by (intro conjI
      region_cloud_facts [OF ss se fl st1_def n_def S_def st2_def F_def m_def res L_def])

theorem corner_clouds_witness:
  "(0::nat) \<le> 1 \<and> (1::nat) \<le> 4
   \<and> 4 - 0 < length (scanNeighborPicked (setScanBuffersFor (regOne farBump) 0 6))
   \<and> cornerPicks 0 1 4 (setRegionBuffersFor (setScanBuffersFor (regOne farBump) 0 6) 1 4) 0 = [3]
   \<and> cornerPointsSharp (fst (extractRegion 0 1 4 (setScanBuffersFor (regOne farBump) 0 6, [])))
       = [farBump ! 3]
   \<and> cornerPointsLessSharp (fst (extractRegion 0 1 4 (setScanBuffersFor (regOne farBump) 0 6, [])))
       = [farBump ! 3]
   \<and> regionLabel (fst (extractRegion 0 1 4 (setScanBuffersFor (regOne farBump) 0 6, []))) ! (3 - 1)
       = CORNER_SHARP"
proof -
  let ?st = "setScanBuffersFor (regOne farBump) 0 6"
  have h: "(0::nat) \<le> 1" "(1::nat) \<le> 4" "4 - 0 < length (scanNeighborPicked ?st)"
    by (simp_all add: farSt_sel)
  have n: "4 - 1 + 1 = (4::nat)" by simp
  have t: "take (nat (maxCornerSharp (params ?st))) [3::nat] = [3]"
    unfolding farSt_sel by (simp add: regOne_sel)
  note c = corner_clouds [where lf = "[]", OF h refl refl refl refl refl refl
      prod.collapse [symmetric] refl, unfolded n farBump_single t]
  from c have "cornerPointsSharp (fst (extractRegion 0 1 4 (?st, []))) = [farBump ! 3]"
    unfolding farSt_sel by (simp add: setScanBuffersFor_frame regOne_sel)
  moreover from c have "cornerPointsLessSharp (fst (extractRegion 0 1 4 (?st, []))) = [farBump ! 3]"
    unfolding farSt_sel by (simp add: setScanBuffersFor_frame regOne_sel)
  moreover from c have "regionLabel (fst (extractRegion 0 1 4 (?st, []))) ! (3 - 1) = CORNER_SHARP"
    by simp
  ultimately show ?thesis using h farBump_single by blast
qed

section \<open>Transform maintenance: results\<close>

lemma processOdometryTransform_sel:
  "transformSum (processOdometryTransform tm pose) = pose"
  "transformBefMapped (processOdometryTransform tm pose) = transformBefMapped tm"
  "transformAftMapped (processOdometryTransform tm pose) = transformAftMapped tm"
  "transformIncre (processOdometryTransform tm pose) = - transformBefMapped tm + pose"
  "transformMapped (processOdometryTransform tm pose)
     = transformAftMapped tm + (- transformBefMapped tm + pose)"
  by (simp_all add: processOdometryTransform_def transformAssociateToMap_def Let_def)

lemma odometry_keeps_correction:
  "transformBefMapped (foldl processOdometryTransform tm ps) = transformBefMapped tm
   \<and> transformAftMapped (foldl processOdometryTransform tm ps) = transformAftMapped tm"
  by (induction ps arbitrary: tm) (simp_all add: processOdometryTransform_sel)

lemma odometry_last:
  "ps \<noteq> [] \<Longrightarrow> transformSum (foldl processOdometryTransform tm ps) = last ps"
  by (induction ps rule: rev_induct) (simp_all add: processOdometryTransform_sel)

text \<open>
  C5.  Let a mapping correction set the snapshot \<open>bef\<close> and the corrected pose \<open>aft\<close>, and
  let any number of odometry updates \<open>ps\<close> follow.  After a further odometry update at
  which \<open>transformSum\<close> has advanced by \<open>delta\<close> since the snapshot, the fused output is the
  corrected pose composed with \<open>delta\<close>, however many odometry updates there were, and
  whatever their poses were; the snapshot and the corrected pose are still the ones of the
  mapping correction.
\<close>

theorem fusion_invariant:
  fixes tm :: "('p::group_add) TransformMaintenance"
  shows "transformMapped
           (processOdometryTransform
              (foldl processOdometryTransform (processMappingTransform tm aft bef) ps)
              (bef + delta))
         = aft + delta
       \<and> transformSum
           (processOdometryTransform
              (foldl processOdometryTransform (processMappingTransform tm aft bef) ps)
              (bef + delta))
         = bef + delta
       \<and> transformBefMapped
           (processOdometryTransform
              (foldl processOdometryTransform (processMappingTransform tm aft bef) ps)
              (bef + delta))
         = bef
       \<and> transformAftMapped
           (processOdometryTransform
              (foldl processOdometryTransform (processMappingTransform tm aft bef) ps)
              (bef + delta))
         = aft"
proof -
  let ?tm = "foldl processOdometryTransform (processMappingTransform tm aft bef) ps"
  from odometry_keeps_correction [of "processMappingTransform tm aft bef" ps]
  have k: "transformBefMapped ?tm = bef" "transformAftMapped ?tm = aft"
    by (simp_all add: processMappingTransform_def)
  have "- bef + (bef + delta) = delta"
    by (simp only: add.assoc [symmetric] left_minus add_0_left)
  then show ?thesis
    unfolding processOdometryTransform_sel k by simp
qed

end
